theory Spec2Isabelle
  imports Main "HOL-Library.Word" "HOL-Library.Char_ord" "HOL-Library.List_Lexorder"
begin

section \<open>JavaScript values used by the generator\<close>

text \<open>
  Ids are JavaScript strings. A string is falsy exactly when it is empty, which is what the
  guards \<^verbatim>\<open>if (entry.teacherId)\<close> and \<^verbatim>\<open>entry.subjectId && ...\<close> test. Strings are
  compared with \<^verbatim>\<open><\<close> code unit by code unit; on \<^typ>\<open>string\<close> that is the lexicographic
  order of the character codes.
\<close>

definition truthy :: "string \<Rightarrow> bool" where
  "truthy s = (s \<noteq> [])"

definition truthyOpt :: "string option \<Rightarrow> bool" where
  "truthyOpt v = (case v of None \<Rightarrow> False | Some s \<Rightarrow> truthy s)"

text \<open>\<^verbatim>\<open>x | 0\<close>: the number as a signed 32-bit integer.\<close>

definition toInt32 :: "int \<Rightarrow> int" where
  "toInt32 n = (n + 2 ^ 31) mod 2 ^ 32 - 2 ^ 31"

text \<open>
  A plain object used as a dictionary: the pairs are kept in the order the keys were
  created, \<^verbatim>\<open>obj[k] = v\<close> replaces the value of an existing key in place and appends a
  new key. \<^verbatim>\<open>Object.entries\<close> lists the keys that are array indices first, in
  ascending numeric order, and then the other keys in creation order.
\<close>

type_synonym 'v js_object = "(string \<times> 'v) list"

fun obj_set :: "'v js_object \<Rightarrow> string \<Rightarrow> 'v \<Rightarrow> 'v js_object" where
  "obj_set [] k v = [(k, v)]"
| "obj_set ((k', v') # kvs) k v =
     (if k' = k then (k, v) # kvs else (k', v') # obj_set kvs k v)"

definition obj_get :: "'v js_object \<Rightarrow> string \<Rightarrow> 'v option" where
  "obj_get obj k = map_of obj k"

definition isDigit :: "char \<Rightarrow> bool" where
  "isDigit c = (CHR ''0'' \<le> c \<and> c \<le> CHR ''9'')"

definition digitsValue :: "string \<Rightarrow> nat" where
  "digitsValue s = foldl (\<lambda>acc c. 10 * acc + (of_char c - of_char CHR ''0'')) 0 s"

definition isArrayIndex :: "string \<Rightarrow> bool" where
  "isArrayIndex s =
     (s \<noteq> [] \<and> list_all isDigit s \<and> (hd s \<noteq> CHR ''0'' \<or> length s = 1)
      \<and> digitsValue s < 2 ^ 32 - 1)"

definition object_entries :: "'v js_object \<Rightarrow> (string \<times> 'v) list" where
  "object_entries obj =
     sort_key (\<lambda>kv. digitsValue (fst kv)) (filter (\<lambda>kv. isArrayIndex (fst kv)) obj)
     @ filter (\<lambda>kv. \<not> isArrayIndex (fst kv)) obj"

text \<open>
  \<^verbatim>\<open>arr[i] = v\<close> on a JavaScript array: an index at or past the length extends the
  array, the cells in between being holes. A hole reads as \<^verbatim>\<open>undefined\<close>, which every
  test of the generator treats as it treats \<^verbatim>\<open>null\<close>; both are \<^const>\<open>None\<close> here.
\<close>

definition js_set :: "'a option list \<Rightarrow> nat \<Rightarrow> 'a option \<Rightarrow> 'a option list" where
  "js_set xs i v =
     (if i < length xs then xs[i := v] else xs @ replicate (i - length xs) None @ [v])"

section \<open>The seeded generator \<^verbatim>\<open>createRng\<close>\<close>

text \<open>
  The state is \<^verbatim>\<open>s = (seed >>> 0) || 42\<close>, an unsigned 32-bit integer. In
  \<^verbatim>\<open>(1664525 * s + 1013904223) >>> 0\<close> the product and the sum stay below \<open>2^53\<close>, so
  the double arithmetic is exact and the step is the congruence modulo \<open>2^32\<close>.
\<close>

type_synonym rng = "32 word"

definition createRng :: "int \<Rightarrow> rng" where
  "createRng seed = (let s = (word_of_int seed :: 32 word) in if s = 0 then 42 else s)"

definition rng_next :: "rng \<Rightarrow> rng" where
  "rng_next s = 1664525 * s + 1013904223"

text \<open>
  \<^verbatim>\<open>Math.floor(rng.nextFloat() * n)\<close> with \<^verbatim>\<open>nextFloat() = s / 0xffffffff\<close>. Both the
  division and the product are rounded to the nearest double (53 significant bits, ties
  to even). The quotient is kept as a mantissa \<open>m\<close> and a scale \<open>k\<close>, meaning \<open>m / 2^k\<close>.
\<close>

definition roundHalfEven :: "nat \<Rightarrow> nat \<Rightarrow> nat" where
  "roundHalfEven n d =
     (let q = n div d; r = n mod d in
      if 2 * r < d then q else if d < 2 * r then q + 1 else if even q then q else q + 1)"

fun bitLength :: "nat \<Rightarrow> nat" where
  "bitLength n = (if n = 0 then 0 else Suc (bitLength (n div 2)))"

fun normShift :: "nat \<Rightarrow> nat \<Rightarrow> nat \<Rightarrow> nat" where
  "normShift 0 s d = 0"
| "normShift (Suc fuel) s d = (if d \<le> s then 0 else Suc (normShift fuel (2 * s) d))"

definition nextFloat :: "rng \<Rightarrow> nat \<times> nat" where
  "nextFloat s =
     (let n = unat s; d = 4294967295 in
      if n = 0 then (0, 0)
      else let k = 52 + normShift 32 n d in (roundHalfEven (n * 2 ^ k) d, k))"

definition floorTimes :: "nat \<times> nat \<Rightarrow> nat \<Rightarrow> nat" where
  "floorTimes f n =
     (let p = fst f * n; b = bitLength p - 53 in
      (roundHalfEven p (2 ^ b) * 2 ^ b) div 2 ^ snd f)"

definition pickIndex :: "rng \<Rightarrow> nat \<Rightarrow> nat" where
  "pickIndex s n = floorTimes (nextFloat s) n"

section \<open>The school configuration\<close>

record subject =
  subject_id :: string
  subject_name :: string
  weeklyPeriods :: int
  lab :: bool
  doublePeriod :: bool
  resourceType :: "string option"

record teacher =
  teacher_id :: string
  teacher_subjects :: "string list"
  maxLoad :: int
  teacher_availability :: "bool list list"

record resource =
  resource_id :: string
  resource_type :: string
  resource_availability :: "bool list list option"

text \<open>
  The \<^verbatim>\<open>subjects\<close> mapping of a class is given by its pairs in \<^verbatim>\<open>Object.keys\<close> order.
\<close>

record schoolClass =
  class_id :: string
  class_subjects :: "(string \<times> int) list"

record schoolData =
  workingDays :: nat
  periodsPerDay :: nat
  subjects :: "subject list"
  teachers :: "teacher list"
  classes :: "schoolClass list"
  resources :: "resource list"

record options =
  optimizeIterations :: "int option"
  seed :: "int option"

section \<open>Timetable cells\<close>

text \<open>
  A cell holds \<^verbatim>\<open>null\<close> or an object. The fields an object literal leaves out are
  \<^const>\<open>None\<close> (or \<^const>\<open>False\<close> for the flags, which are only tested for truth).
  \<open>ref\<close> is the identity of the object: every evaluation of an object literal allocates
  a new one, and \<^verbatim>\<open>x === exceptEntry\<close> compares identities.
\<close>

record entry =
  ref :: nat
  subjectId :: string
  teacherId :: "string option"
  resourceId :: "string option"
  double :: bool
  headOfDouble :: "bool option"
  unassigned :: bool

type_synonym cell = "entry option"
type_synonym grid = "cell list list"
type_synonym timetable = "grid js_object"

definition makeEmptyGrid :: "nat \<Rightarrow> nat \<Rightarrow> grid" where
  "makeEmptyGrid days periods = replicate days (replicate periods None)"

text \<open>
  \<^verbatim>\<open>grid[d][p]\<close>. A column past the end of the row reads as \<^verbatim>\<open>undefined\<close>. Every
  caller inside \<^verbatim>\<open>generateTimetable\<close> indexes rows below \<^verbatim>\<open>workingDays\<close>, and every grid
  of the timetable has that many rows (lemma \<open>wf_rows\<close> below).
\<close>

definition gridAt :: "grid \<Rightarrow> nat \<Rightarrow> nat \<Rightarrow> cell" where
  "gridAt g d p = (if d < length g \<and> p < length (g ! d) then g ! d ! p else None)"

definition gridSet :: "grid \<Rightarrow> nat \<Rightarrow> nat \<Rightarrow> cell \<Rightarrow> grid" where
  "gridSet g d p v = (if d < length g then g[d := js_set (g ! d) p v] else g)"

definition gridOf :: "timetable \<Rightarrow> string \<Rightarrow> grid" where
  "gridOf tt c = (case obj_get tt c of None \<Rightarrow> [] | Some g \<Rightarrow> g)"

definition cellAt :: "timetable \<Rightarrow> string \<Rightarrow> nat \<Rightarrow> nat \<Rightarrow> cell" where
  "cellAt tt c d p = gridAt (gridOf tt c) d p"

text \<open>
  A \<^verbatim>\<open>Map\<close>: the pairs in insertion order; \<^verbatim>\<open>set\<close> replaces the value of a key that
  is present and appends a new key.
\<close>

fun map_set :: "('k \<times> 'v) list \<Rightarrow> 'k \<Rightarrow> 'v \<Rightarrow> ('k \<times> 'v) list" where
  "map_set [] k v = [(k, v)]"
| "map_set ((k', v') # kvs) k v =
     (if k' = k then (k, v) # kvs else (k', v') # map_set kvs k v)"

section \<open>\<^verbatim>\<open>buildIndex\<close> and \<^verbatim>\<open>inferSubjectResourceType\<close>\<close>

text \<open>
  \<open>subjectsById\<close> and \<open>teachersById\<close> are filled with \<^verbatim>\<open>Map.set\<close> in list order, so
  the last record with an id is the one found. \<open>resourcesByType\<close> pushes each resource
  to the list of its type, which is the sublist of the resources with that type.
\<close>

definition subjectsById :: "subject list \<Rightarrow> string \<Rightarrow> subject option" where
  "subjectsById ss k = find (\<lambda>s. subject_id s = k) (rev ss)"

definition teachersById :: "teacher list \<Rightarrow> string \<Rightarrow> teacher option" where
  "teachersById ts k = find (\<lambda>t. teacher_id t = k) (rev ts)"

definition resourcesByType :: "resource list \<Rightarrow> string \<Rightarrow> resource list" where
  "resourcesByType rs ty = filter (\<lambda>r. resource_type r = ty) rs"

definition toLowerCase :: "string \<Rightarrow> string" where
  "toLowerCase s =
     map (\<lambda>c. if CHR ''A'' \<le> c \<and> c \<le> CHR ''Z'' then char_of (of_char c + (32::nat)) else c) s"

fun includesStr :: "string \<Rightarrow> string \<Rightarrow> bool" where
  "includesStr [] sub = (sub = [])"
| "includesStr (c # cs) sub = (take (length sub) (c # cs) = sub \<or> includesStr cs sub)"

definition inferSubjectResourceType :: "subject \<Rightarrow> string option" where
  "inferSubjectResourceType subj =
     (if truthyOpt (resourceType subj) then resourceType subj
      else if lab subj then
        (if includesStr (toLowerCase (subject_name subj)) ''computer''
         then Some ''computer_lab'' else Some ''lab'')
      else None)"

section \<open>Availability and occupancy\<close>

definition teacherCanTeach :: "teacher \<Rightarrow> string \<Rightarrow> bool" where
  "teacherCanTeach t sid = (sid \<in> set (teacher_subjects t))"

definition availableAt :: "bool list list \<Rightarrow> nat \<Rightarrow> nat list \<Rightarrow> bool" where
  "availableAt av dy ps =
     (dy < length av \<and> list_all (\<lambda>p. p < length (av ! dy) \<and> av ! dy ! p) ps)"

definition checkTeacherAvailability :: "teacher \<Rightarrow> nat \<Rightarrow> nat list \<Rightarrow> bool" where
  "checkTeacherAvailability t dy ps = availableAt (teacher_availability t) dy ps"

definition slotsAreFree :: "grid \<Rightarrow> nat \<Rightarrow> nat list \<Rightarrow> bool" where
  "slotsAreFree g dy ps = list_all (\<lambda>p. gridAt g dy p = None) ps"

text \<open>
  \<open>teacherSchedule\<close> and \<open>resourceSchedule\<close> are maps id \<open>\<rightarrow>\<close> day \<open>\<rightarrow>\<close> set of periods; a
  missing id or day reads as the empty set.
\<close>

type_synonym schedule = "string \<Rightarrow> nat \<Rightarrow> nat set"

definition teacherFreeSchedule :: "schedule \<Rightarrow> string \<Rightarrow> nat \<Rightarrow> nat list \<Rightarrow> bool" where
  "teacherFreeSchedule sched tid dy ps = list_all (\<lambda>p. p \<notin> sched tid dy) ps"

definition occupy :: "schedule \<Rightarrow> string \<Rightarrow> nat \<Rightarrow> nat list \<Rightarrow> schedule" where
  "occupy sched k dy ps = sched(k := (sched k)(dy := sched k dy \<union> set ps))"

definition resourceFree :: "resource \<Rightarrow> nat \<Rightarrow> nat list \<Rightarrow> bool" where
  "resourceFree r dy ps =
     (case resource_availability r of None \<Rightarrow> True | Some av \<Rightarrow> availableAt av dy ps)"

definition resourceOccupied :: "schedule \<Rightarrow> string \<Rightarrow> nat \<Rightarrow> nat list \<Rightarrow> bool" where
  "resourceOccupied sched rid dy ps = list_ex (\<lambda>p. p \<in> sched rid dy) ps"

section \<open>\<^verbatim>\<open>tryAssignSlot\<close>\<close>

record assignArgs =
  arg_subjectId :: string
  arg_requiresDouble :: bool
  arg_teacherList :: "string list"
  arg_teachersById :: "string \<Rightarrow> teacher option"
  arg_maxLoadByTeacher :: "string \<Rightarrow> int option"
  arg_dayCount :: nat
  arg_periodCount :: nat
  arg_resourceType :: "string option"
  arg_availableResources :: "string \<Rightarrow> resource list"

text \<open>The maps the greedy pass mutates, and the next object identity to allocate.\<close>

record scheduler =
  teacherSchedule :: schedule
  resourceSchedule :: schedule
  teacherLoads :: "string \<Rightarrow> int"
  nextRef :: nat

definition periodSpan :: "bool \<Rightarrow> nat" where
  "periodSpan requiresDbl = (if requiresDbl then 2 else 1)"

definition periodsOf :: "bool \<Rightarrow> nat \<Rightarrow> nat list" where
  "periodsOf requiresDbl p = (if requiresDbl then [p, p + 1] else [p])"

text \<open>
  The two nested \<^verbatim>\<open>for\<close> loops over \<open>d\<close> and \<open>p\<close> with \<open>p + periodSpan - 1 < periodCount\<close>
  visit these slots in this order.
\<close>

definition candidateSlots :: "nat \<Rightarrow> nat \<Rightarrow> nat \<Rightarrow> (nat \<times> nat) list" where
  "candidateSlots dayCount periodCount span =
     concat (map (\<lambda>d. map (\<lambda>p. (d, p)) [0..<periodCount + 1 - span]) [0..<dayCount])"

definition totalTeacherLoad :: "(string \<Rightarrow> int) \<Rightarrow> string \<Rightarrow> int" where
  "totalTeacherLoad loads tid = loads tid"

definition incTeacherLoad :: "(string \<Rightarrow> int) \<Rightarrow> string \<Rightarrow> int \<Rightarrow> (string \<Rightarrow> int)" where
  "incTeacherLoad loads tid by = loads(tid := loads tid + by)"

definition maxLoadOf :: "assignArgs \<Rightarrow> string \<Rightarrow> int" where
  "maxLoadOf args tid = (case arg_maxLoadByTeacher args tid of None \<Rightarrow> 0 | Some m \<Rightarrow> m)"

definition teacherQualifies :: "assignArgs \<Rightarrow> scheduler \<Rightarrow> string \<Rightarrow> nat \<Rightarrow> nat list \<Rightarrow> bool" where
  "teacherQualifies args st tid dy ps =
     (case arg_teachersById args tid of
        None \<Rightarrow> False
      | Some t \<Rightarrow>
          teacherCanTeach t (arg_subjectId args)
          \<and> checkTeacherAvailability t dy ps
          \<and> teacherFreeSchedule (teacherSchedule st) tid dy ps
          \<and> \<not> (totalTeacherLoad (teacherLoads st) tid
                  + int (periodSpan (arg_requiresDouble args)) > maxLoadOf args tid))"

definition findResource :: "assignArgs \<Rightarrow> scheduler \<Rightarrow> string \<Rightarrow> nat \<Rightarrow> nat list \<Rightarrow> resource option" where
  "findResource args st ty dy ps =
     find (\<lambda>r. resourceFree r dy ps \<and> \<not> resourceOccupied (resourceSchedule st) (resource_id r) dy ps)
       (arg_availableResources args ty)"

text \<open>
  The loop over \<open>teacherList\<close> for one slot: the first teacher that passes every
  \<^verbatim>\<open>continue\<close> guard, with the resource chosen for it (if one is needed).
\<close>

fun tryTeachers ::
  "assignArgs \<Rightarrow> scheduler \<Rightarrow> nat \<Rightarrow> nat list \<Rightarrow> string list \<Rightarrow> (string \<times> resource option) option" where
  "tryTeachers args st dy ps [] = None"
| "tryTeachers args st dy ps (tid # rest) =
     (if \<not> teacherQualifies args st tid dy ps then tryTeachers args st dy ps rest
      else if truthyOpt (arg_resourceType args) then
        (case findResource args st (the (arg_resourceType args)) dy ps of
           None \<Rightarrow> tryTeachers args st dy ps rest
         | Some r \<Rightarrow> Some (tid, Some r))
      else Some (tid, None))"

fun findPlacement ::
  "assignArgs \<Rightarrow> grid \<Rightarrow> scheduler \<Rightarrow> (nat \<times> nat) list
     \<Rightarrow> (nat \<times> nat \<times> string \<times> resource option) option" where
  "findPlacement args g st [] = None"
| "findPlacement args g st ((d, p) # rest) =
     (if \<not> slotsAreFree g d (periodsOf (arg_requiresDouble args) p)
      then findPlacement args g st rest
      else case tryTeachers args st d (periodsOf (arg_requiresDouble args) p) (arg_teacherList args) of
             Some (tid, r) \<Rightarrow> Some (d, p, tid, r)
           | None \<Rightarrow> findPlacement args g st rest)"

definition assignedEntry :: "nat \<Rightarrow> string \<Rightarrow> string \<Rightarrow> resource option \<Rightarrow> bool \<Rightarrow> entry" where
  "assignedEntry r sid tid chosen dbl =
     \<lparr>ref = r, subjectId = sid, teacherId = Some tid,
      resourceId = map_option resource_id chosen, double = dbl,
      headOfDouble = (if dbl then Some True else None), unassigned = False\<rparr>"

definition unassignedMarker :: "nat \<Rightarrow> string \<Rightarrow> entry" where
  "unassignedMarker r sid =
     \<lparr>ref = r, subjectId = sid, teacherId = None, resourceId = None, double = False,
      headOfDouble = None, unassigned = True\<rparr>"

definition commitPlacement ::
  "assignArgs \<Rightarrow> grid \<Rightarrow> scheduler \<Rightarrow> nat \<Rightarrow> nat \<Rightarrow> string \<Rightarrow> resource option \<Rightarrow> grid \<times> scheduler" where
  "commitPlacement args g st d p tid chosen =
     (let dbl = arg_requiresDouble args;
          ps = periodsOf dbl p;
          e = assignedEntry (nextRef st) (arg_subjectId args) tid chosen dbl;
          g1 = gridSet g d p (Some e);
          g2 = (if dbl then gridSet g1 d (p + 1) (Some (e\<lparr>ref := nextRef st + 1, headOfDouble := Some False\<rparr>))
                else g1)
      in (g2,
          st\<lparr>teacherSchedule := occupy (teacherSchedule st) tid d ps,
             resourceSchedule :=
               (case chosen of None \<Rightarrow> resourceSchedule st
                | Some r \<Rightarrow> occupy (resourceSchedule st) (resource_id r) d ps),
             teacherLoads := incTeacherLoad (teacherLoads st) tid (int (periodSpan dbl)),
             nextRef := nextRef st + periodSpan dbl\<rparr>))"

definition markUnassigned :: "assignArgs \<Rightarrow> grid \<Rightarrow> scheduler \<Rightarrow> nat \<Rightarrow> nat \<Rightarrow> grid \<times> scheduler" where
  "markUnassigned args g st d p =
     (let dbl = arg_requiresDouble args;
          un = unassignedMarker (nextRef st) (arg_subjectId args);
          g1 = gridSet g d p (Some un);
          g2 = (if dbl then gridSet g1 d (p + 1) (Some (un\<lparr>ref := nextRef st + 1\<rparr>)) else g1)
      in (g2, st\<lparr>nextRef := nextRef st + periodSpan dbl\<rparr>))"

text \<open>
  \<open>tryAssignSlot\<close> mutates \<open>classGrid\<close> and the three maps; here it returns them with
  its boolean result.
\<close>

definition tryAssignSlot :: "assignArgs \<Rightarrow> grid \<Rightarrow> scheduler \<Rightarrow> bool \<times> grid \<times> scheduler" where
  "tryAssignSlot args classGrid st =
     (let dbl = arg_requiresDouble args;
          slots = candidateSlots (arg_dayCount args) (arg_periodCount args) (periodSpan dbl)
      in case findPlacement args classGrid st slots of
           Some (d, p, tid, chosen) \<Rightarrow> (True, commitPlacement args classGrid st d p tid chosen)
         | None \<Rightarrow>
            (case find (\<lambda>(d, p). slotsAreFree classGrid d (periodsOf dbl p)) slots of
               Some (d, p) \<Rightarrow> (False, markUnassigned args classGrid st d p)
             | None \<Rightarrow> (False, classGrid, st)))"

section \<open>Flattening and ordering the requirements\<close>

record requirement =
  req_classId :: string
  req_subjectId :: string
  requiresDouble :: bool
  req_weeklyPeriods :: int
  req_resourceType :: "string option"
  priorityLab :: bool

definition defaultSubject :: "string \<Rightarrow> subject" where
  "defaultSubject sid =
     \<lparr>subject_id = sid, subject_name = sid, weeklyPeriods = 0, lab = False,
      doublePeriod = False, resourceType = None\<rparr>"

definition requirementsFor :: "(string \<Rightarrow> subject option) \<Rightarrow> string \<Rightarrow> string \<times> int \<Rightarrow> requirement list" where
  "requirementsFor byId cid kv =
     (let sid = fst kv;
          count = toInt32 (snd kv);
          subj = (case byId sid of None \<Rightarrow> defaultSubject sid | Some s \<Rightarrow> s);
          rt = inferSubjectResourceType subj
      in replicate (nat count)
           \<lparr>req_classId = cid, req_subjectId = sid, requiresDouble = doublePeriod subj,
            req_weeklyPeriods = (if weeklyPeriods subj \<noteq> 0 then weeklyPeriods subj else count),
            req_resourceType = rt, priorityLab = truthyOpt rt\<rparr>)"

definition flattenRequired :: "schoolData \<Rightarrow> requirement list" where
  "flattenRequired cfg =
     concat (map (\<lambda>cls. concat (map (requirementsFor (subjectsById (subjects cfg)) (class_id cls))
                                   (class_subjects cls)))
                 (classes cfg))"

definition compareRequired :: "requirement \<Rightarrow> requirement \<Rightarrow> int" where
  "compareRequired a b =
     (let a1 = (if requiresDouble a = requiresDouble b then 0 else if requiresDouble a then - 1 else 1);
          a2 = (if priorityLab a = priorityLab b then 0 else if priorityLab a then - 1 else 1);
          a3 = toInt32 (req_weeklyPeriods b) - toInt32 (req_weeklyPeriods a)
      in if a1 \<noteq> 0 then a1
         else if a2 \<noteq> 0 then a2
         else if a3 \<noteq> 0 then a3
         else if req_classId a \<noteq> req_classId b then (if req_classId a < req_classId b then - 1 else 1)
         else if req_subjectId a \<noteq> req_subjectId b then (if req_subjectId a < req_subjectId b then - 1 else 1)
         else 0)"

text \<open>
  \<^verbatim>\<open>Array.prototype.sort\<close> is stable and \<open>compareRequired\<close> compares keys
  lexicographically, so the sorted array is the stable ordering by that comparison;
  insertion from the right computes it.
\<close>

fun insertRequired :: "requirement \<Rightarrow> requirement list \<Rightarrow> requirement list" where
  "insertRequired x [] = [x]"
| "insertRequired x (y # ys) =
     (if compareRequired x y \<le> 0 then x # y # ys else y # insertRequired x ys)"

definition sortRequired :: "requirement list \<Rightarrow> requirement list" where
  "sortRequired xs = foldr insertRequired xs []"

section \<open>The greedy pass of \<^verbatim>\<open>generateTimetable\<close>\<close>

definition emptyTimetable :: "schoolData \<Rightarrow> timetable" where
  "emptyTimetable cfg =
     foldl (\<lambda>tt c. obj_set tt (class_id c) (makeEmptyGrid (workingDays cfg) (periodsPerDay cfg)))
       [] (classes cfg)"

definition maxLoadByTeacher :: "teacher list \<Rightarrow> string \<Rightarrow> int option" where
  "maxLoadByTeacher ts k = map_option maxLoad (teachersById ts k)"

definition teacherOrder :: "schoolData \<Rightarrow> string list" where
  "teacherOrder cfg = sort (map teacher_id (teachers cfg))"

definition argsFor :: "schoolData \<Rightarrow> requirement \<Rightarrow> assignArgs" where
  "argsFor cfg slot =
     \<lparr>arg_subjectId = req_subjectId slot,
      arg_requiresDouble = requiresDouble slot,
      arg_teacherList = teacherOrder cfg,
      arg_teachersById = teachersById (teachers cfg),
      arg_maxLoadByTeacher = maxLoadByTeacher (teachers cfg),
      arg_dayCount = workingDays cfg,
      arg_periodCount = periodsPerDay cfg,
      arg_resourceType = req_resourceType slot,
      arg_availableResources = resourcesByType (resources cfg)\<rparr>"

text \<open>
  \<open>classGrid\<close> is the grid object stored under \<open>slot.classId\<close>, so the writes of
  \<open>tryAssignSlot\<close> are writes to the timetable.
\<close>

definition replaceGrid :: "timetable \<Rightarrow> string \<Rightarrow> grid \<Rightarrow> timetable" where
  "replaceGrid tt c g = map (\<lambda>kv. if fst kv = c then (fst kv, g) else kv) tt"

definition assignStep :: "schoolData \<Rightarrow> timetable \<times> scheduler \<Rightarrow> requirement \<Rightarrow> timetable \<times> scheduler" where
  "assignStep cfg ts slot =
     (let r = tryAssignSlot (argsFor cfg slot) (gridOf (fst ts) (req_classId slot)) (snd ts)
      in (replaceGrid (fst ts) (req_classId slot) (fst (snd r)), snd (snd r)))"

definition initialScheduler :: scheduler where
  "initialScheduler =
     \<lparr>teacherSchedule = (\<lambda>_ _. {}), resourceSchedule = (\<lambda>_ _. {}),
      teacherLoads = (\<lambda>_. 0), nextRef = 0\<rparr>"

definition greedyAssign :: "schoolData \<Rightarrow> timetable \<times> scheduler" where
  "greedyAssign cfg =
     foldl (assignStep cfg) (emptyTimetable cfg, initialScheduler) (sortRequired (flattenRequired cfg))"

section \<open>\<^verbatim>\<open>computeDiagnostics\<close>\<close>

record diagAcc =
  acc_unassigned :: nat
  acc_penalty :: int
  acc_loads :: "(string \<times> nat) list"
  acc_usage :: "(string \<times> (nat \<times> bool list) list) list"

definition bumpLoad :: "(string \<times> nat) list \<Rightarrow> string \<Rightarrow> (string \<times> nat) list" where
  "bumpLoad loads tid = map_set loads tid ((case map_of loads tid of None \<Rightarrow> 0 | Some n \<Rightarrow> n) + 1)"

definition markUsage ::
  "nat \<Rightarrow> (string \<times> (nat \<times> bool list) list) list \<Rightarrow> string \<Rightarrow> nat \<Rightarrow> nat
     \<Rightarrow> (string \<times> (nat \<times> bool list) list) list" where
  "markUsage periods usage tid d p =
     (let dayMap = (case map_of usage tid of None \<Rightarrow> [] | Some m \<Rightarrow> m);
          dayArr = (case map_of dayMap d of None \<Rightarrow> replicate periods False | Some a \<Rightarrow> a)
      in map_set usage tid (map_set dayMap d (dayArr[p := True])))"

definition sameSubjectNext :: "entry \<Rightarrow> cell \<Rightarrow> bool" where
  "sameSubjectNext e nxt =
     (case nxt of
        None \<Rightarrow> False
      | Some n \<Rightarrow> \<not> unassigned n \<and> truthy (subjectId e) \<and> truthy (subjectId n)
                  \<and> subjectId e = subjectId n)"

text \<open>The body of the loop over \<open>p\<close> for one cell.\<close>

definition diagCell :: "nat \<Rightarrow> grid \<Rightarrow> nat \<Rightarrow> diagAcc \<Rightarrow> nat \<Rightarrow> diagAcc" where
  "diagCell periods g d acc p =
     (case gridAt g d p of
        None \<Rightarrow> acc
      | Some e \<Rightarrow>
          if unassigned e
          then acc\<lparr>acc_unassigned := acc_unassigned acc + 1, acc_penalty := acc_penalty acc + 20\<rparr>
          else
            let acc1 = (if truthyOpt (teacherId e)
                        then acc\<lparr>acc_loads := bumpLoad (acc_loads acc) (the (teacherId e)),
                                 acc_usage := markUsage periods (acc_usage acc) (the (teacherId e)) d p\<rparr>
                        else acc)
            in if p + 1 < periods \<and> sameSubjectNext e (gridAt g d (p + 1))
               then acc1\<lparr>acc_penalty := acc_penalty acc1 + 10\<rparr>
               else acc1)"

definition diagGrid :: "nat \<Rightarrow> nat \<Rightarrow> diagAcc \<Rightarrow> grid \<Rightarrow> diagAcc" where
  "diagGrid days periods acc g =
     foldl (\<lambda>acc d. foldl (diagCell periods g d) acc [0..<periods]) acc [0..<days]"

definition gapCount :: "bool list \<Rightarrow> nat" where
  "gapCount dayArr =
     length (filter (\<lambda>p. dayArr ! (p - 1) \<and> \<not> dayArr ! p \<and> dayArr ! (p + 1)) [1..<length dayArr - 1])"

definition gapPenalty :: "(string \<times> (nat \<times> bool list) list) list \<Rightarrow> int" where
  "gapPenalty usage =
     (\<Sum>tm \<leftarrow> usage. \<Sum>da \<leftarrow> snd tm. 5 * int (gapCount (snd da)))"

record diagnostics =
  unassignedCount :: nat
  penaltyScore :: int
  teacherLoadsObj :: "nat js_object"

definition diagScan :: "timetable \<Rightarrow> schoolData \<Rightarrow> diagAcc" where
  "diagScan tt cfg =
     foldl (diagGrid (workingDays cfg) (periodsPerDay cfg))
       \<lparr>acc_unassigned = 0, acc_penalty = 0, acc_loads = [], acc_usage = []\<rparr>
       (map snd (object_entries tt))"

definition computeDiagnostics :: "timetable \<Rightarrow> schoolData \<Rightarrow> diagnostics" where
  "computeDiagnostics tt cfg =
     (let acc = diagScan tt cfg
      in \<lparr>unassignedCount = acc_unassigned acc,
          penaltyScore = acc_penalty acc + gapPenalty (acc_usage acc),
          teacherLoadsObj = foldl (\<lambda>obj kv. obj_set obj (fst kv) (snd kv)) [] (acc_loads acc)\<rparr>)"

definition computePenalty :: "timetable \<Rightarrow> schoolData \<Rightarrow> int" where
  "computePenalty tt cfg = penaltyScore (computeDiagnostics tt cfg)"

section \<open>The local-swap optimizer\<close>

record poolItem =
  classId :: string
  day :: nat
  period :: nat
  item_entry :: entry

definition poolCell :: "string \<Rightarrow> grid \<Rightarrow> nat \<Rightarrow> nat \<Rightarrow> poolItem option" where
  "poolCell cid g d p =
     (case gridAt g d p of
        None \<Rightarrow> None
      | Some e \<Rightarrow>
          if unassigned e then None
          else if double e \<and> headOfDouble e = Some False then None
          else Some \<lparr>classId = cid, day = d, period = p, item_entry = e\<rparr>)"

definition collectAssignedSlots :: "timetable \<Rightarrow> schoolData \<Rightarrow> poolItem list" where
  "collectAssignedSlots tt cfg =
     concat (map (\<lambda>cg. concat (map (\<lambda>d. List.map_filter (poolCell (fst cg) (snd cg) d)
                                              [0..<periodsPerDay cfg])
                                      [0..<workingDays cfg]))
                 (object_entries tt))"

definition destFree :: "grid \<Rightarrow> nat \<Rightarrow> nat list \<Rightarrow> entry \<Rightarrow> bool" where
  "destFree targetGrid dy perArr exceptEntry =
     list_all (\<lambda>p. case gridAt targetGrid dy p of
                      None \<Rightarrow> True
                    | Some x \<Rightarrow>
                        ref x = ref exceptEntry
                        \<or> (double exceptEntry \<and> double x \<and> subjectId x = subjectId exceptEntry
                            \<and> teacherId x = teacherId exceptEntry))
       perArr"

definition clashes :: "entry \<Rightarrow> cell \<Rightarrow> bool" where
  "clashes movingEntry c =
     (case c of
        None \<Rightarrow> False
      | Some e \<Rightarrow>
          \<not> unassigned e
          \<and> ((truthyOpt (teacherId e) \<and> truthyOpt (teacherId movingEntry)
               \<and> teacherId e = teacherId movingEntry)
              \<or> (truthyOpt (resourceId movingEntry) \<and> truthyOpt (resourceId e)
                  \<and> resourceId e = resourceId movingEntry)))"

definition teacherHasConflict :: "timetable \<Rightarrow> entry \<Rightarrow> string \<Rightarrow> nat \<Rightarrow> nat list \<Rightarrow> bool" where
  "teacherHasConflict tt movingEntry destClassId dy perArr =
     list_ex (\<lambda>p. list_ex (\<lambda>cg. fst cg \<noteq> destClassId \<and> clashes movingEntry (gridAt (snd cg) dy p))
                    (object_entries tt))
       perArr"

definition spanOf :: "entry \<Rightarrow> nat \<Rightarrow> nat list" where
  "spanOf e p = (if double e then [p, p + 1] else [p])"

text \<open>
  \<open>a\<close> and \<open>b\<close> come from the pool collected on this timetable, so both cells hold an
  entry; the last case is the \<^verbatim>\<open>TypeError\<close> of reading a field of \<^verbatim>\<open>null\<close>, which a
  pool item never meets.
\<close>

definition swapFeasible :: "poolItem \<Rightarrow> poolItem \<Rightarrow> timetable \<Rightarrow> schoolData \<Rightarrow> bool" where
  "swapFeasible a b tt cfg =
     (case (cellAt tt (classId a) (day a) (period a), cellAt tt (classId b) (day b) (period b)) of
        (Some Aentry, Some Bentry) \<Rightarrow>
          if double Aentry \<and> period a + 1 \<ge> periodsPerDay cfg then False
          else if double Bentry \<and> period b + 1 \<ge> periodsPerDay cfg then False
          else if \<not> destFree (gridOf tt (classId b)) (day a) (spanOf Aentry (period a)) Bentry then False
          else if \<not> destFree (gridOf tt (classId a)) (day b) (spanOf Bentry (period b)) Aentry then False
          else if teacherHasConflict tt Aentry (classId b) (day b) (spanOf Bentry (period b)) then False
          else if teacherHasConflict tt Bentry (classId a) (day a) (spanOf Aentry (period a)) then False
          else True
      | _ \<Rightarrow> False)"

text \<open>
  \<^verbatim>\<open>grid[d][p] = v\<close> on the grid object of class \<open>c\<close>. \<open>Agrid\<close> and \<open>Bgrid\<close> are the same
  object when the two classes are the same; going through the timetable by class id
  keeps that.
\<close>

definition cellSet :: "timetable \<Rightarrow> string \<Rightarrow> nat \<Rightarrow> nat \<Rightarrow> cell \<Rightarrow> timetable" where
  "cellSet tt c d p v = replaceGrid tt c (gridSet (gridOf tt c) d p v)"

text \<open>
  \<open>moveEntry(srcGrid, src, dstGrid, dst)\<close> reads the entry that is in the source cell
  when it is called, clears its cells and writes copies of it at the destination. The
  timetable is paired with the next object identity.
\<close>

definition moveEntry ::
  "timetable \<times> nat \<Rightarrow> string \<Rightarrow> poolItem \<Rightarrow> string \<Rightarrow> poolItem \<Rightarrow> timetable \<times> nat" where
  "moveEntry tn srcClass src dstClass dst =
     (case cellAt (fst tn) srcClass (day src) (period src) of
        None \<Rightarrow> tn
      | Some e \<Rightarrow>
          let t1 = cellSet (fst tn) srcClass (day src) (period src) None;
              t2 = (if double e then cellSet t1 srcClass (day src) (period src + 1) None else t1);
              t3 = cellSet t2 dstClass (day dst) (period dst)
                     (Some (e\<lparr>ref := snd tn, headOfDouble := (if double e then Some True else None)\<rparr>));
              t4 = (if double e
                    then cellSet t3 dstClass (day dst) (period dst + 1)
                           (Some (e\<lparr>ref := snd tn + 1, headOfDouble := Some False\<rparr>))
                    else t3)
          in (t4, snd tn + (if double e then 2 else 1)))"

definition applySwap :: "poolItem \<Rightarrow> poolItem \<Rightarrow> timetable \<times> nat \<Rightarrow> timetable \<times> nat" where
  "applySwap a b tn =
     moveEntry (moveEntry tn (classId a) a (classId b) b) (classId b) b (classId a) a"

record optState =
  opt_timetable :: timetable
  bestPenalty :: int
  opt_rng :: rng
  opt_nextRef :: nat

definition samePlace :: "poolItem \<Rightarrow> poolItem \<Rightarrow> bool" where
  "samePlace a b = (classId a = classId b \<and> day a = day b \<and> period a = period b)"

text \<open>
  The trial of one feasible swap: snapshot the two grids, apply the swap, score the
  whole timetable, and keep the swap or put the two snapshots back.
\<close>

definition trySwap :: "schoolData \<Rightarrow> poolItem \<Rightarrow> poolItem \<Rightarrow> optState \<Rightarrow> optState" where
  "trySwap cfg a b st =
     (let tt = opt_timetable st;
          Agr = gridOf tt (classId a);
          Bgr = gridOf tt (classId b);
          sw = applySwap a b (tt, opt_nextRef st);
          newPenalty = penaltyScore (computeDiagnostics (fst sw) cfg)
      in if newPenalty < bestPenalty st
         then st\<lparr>opt_timetable := fst sw, bestPenalty := newPenalty, opt_nextRef := snd sw\<rparr>
         else st\<lparr>opt_timetable := replaceGrid (replaceGrid (fst sw) (classId a) Agr) (classId b) Bgr,
                 opt_nextRef := snd sw\<rparr>)"

text \<open>
  One pass through the body of the \<^verbatim>\<open>for\<close> loop. \<^const>\<open>None\<close> is the \<^verbatim>\<open>break\<close> on a
  pool of fewer than two entries; every \<^verbatim>\<open>continue\<close> keeps the timetable and the two
  draws taken from the generator.
\<close>

definition optimizerIteration :: "schoolData \<Rightarrow> optState \<Rightarrow> optState option" where
  "optimizerIteration cfg st =
     (let pool = collectAssignedSlots (opt_timetable st) cfg in
      if length pool < 2 then None
      else
        let s1 = rng_next (opt_rng st);
            i = pickIndex s1 (length pool);
            s2 = rng_next s1;
            j = pickIndex s2 (length pool);
            st' = st\<lparr>opt_rng := s2\<rparr>
        in if length pool \<le> i \<or> length pool \<le> j then Some st'
           else if samePlace (pool ! i) (pool ! j) then Some st'
           else if \<not> swapFeasible (pool ! i) (pool ! j) (opt_timetable st) cfg then Some st'
           else Some (trySwap cfg (pool ! i) (pool ! j) st'))"

fun optimizeLoop :: "schoolData \<Rightarrow> nat \<Rightarrow> optState \<Rightarrow> optState" where
  "optimizeLoop cfg 0 st = st"
| "optimizeLoop cfg (Suc n) st =
     (case optimizerIteration cfg st of None \<Rightarrow> st | Some st' \<Rightarrow> optimizeLoop cfg n st')"

section \<open>\<^verbatim>\<open>generateTimetable\<close>\<close>

record generated =
  timetable :: timetable
  diag :: diagnostics
  timeTakenMs :: int
  timeMs :: int

definition iterationsOf :: "options \<Rightarrow> nat" where
  "iterationsOf opts = nat (max 0 (case optimizeIterations opts of None \<Rightarrow> 200 | Some k \<Rightarrow> k))"

definition seedOf :: "options \<Rightarrow> int" where
  "seedOf opts = (case seed opts of None \<Rightarrow> 42 | Some k \<Rightarrow> if k = 0 then 42 else k)"

definition startState :: "schoolData \<Rightarrow> options \<Rightarrow> optState" where
  "startState cfg opts =
     (let ga = greedyAssign cfg
      in \<lparr>opt_timetable = fst ga,
          bestPenalty = penaltyScore (computeDiagnostics (fst ga) cfg),
          opt_rng = createRng (seedOf opts),
          opt_nextRef = nextRef (snd ga)\<rparr>)"

text \<open>
  \<open>t0\<close> and \<open>t1\<close> are the two readings of \<^verbatim>\<open>Date.now()\<close>, at entry and after the last
  \<open>computeDiagnostics\<close>.
\<close>

definition generateTimetable :: "schoolData \<Rightarrow> options \<Rightarrow> int \<Rightarrow> int \<Rightarrow> generated" where
  "generateTimetable cfg opts t0 t1 =
     (let final = optimizeLoop cfg (iterationsOf opts) (startState cfg opts)
      in \<lparr>timetable = opt_timetable final,
          diag = computeDiagnostics (opt_timetable final) cfg,
          timeTakenMs = t1 - t0,
          timeMs = t1 - t0\<rparr>)"

section \<open>Notions used in the proofs\<close>

text \<open>
  \<open>touches S tt tt'\<close>: the timetable \<open>tt'\<close> has the keys of \<open>tt\<close> in the same order, and
  the same grid under every key outside \<open>S\<close>.
\<close>

definition touches :: "string set \<Rightarrow> timetable \<Rightarrow> timetable \<Rightarrow> bool" where
  "touches S tt tt' = list_all2 (\<lambda>kv kv'. fst kv' = fst kv \<and> (fst kv \<notin> S \<longrightarrow> snd kv' = snd kv)) tt tt'"

text \<open>
  The optimizer state is consistent when the timetable is a proper object (no key
  twice) and \<open>bestPenalty\<close> is the score of the timetable it holds.
\<close>

definition consistent :: "schoolData \<Rightarrow> optState \<Rightarrow> bool" where
  "consistent cfg st =
     (distinct (map fst (opt_timetable st)) \<and> bestPenalty st = computePenalty (opt_timetable st) cfg)"

section \<open>Counting the cells of a teacher\<close>

text \<open>The number of cells, over all grids of the timetable, that carry teacher \<open>t\<close>.\<close>

definition cellHasTeacher :: "string \<Rightarrow> cell \<Rightarrow> bool" where
  "cellHasTeacher t c = (case c of None \<Rightarrow> False | Some e \<Rightarrow> teacherId e = Some t)"

definition teacherCellCount :: "timetable \<Rightarrow> string \<Rightarrow> nat" where
  "teacherCellCount tt t = (\<Sum>kv \<leftarrow> tt. \<Sum>row \<leftarrow> snd kv. length (filter (cellHasTeacher t) row))"

section \<open>Invariants\<close>

text \<open>
  A timetable is well formed when no class id occurs twice and every grid has one row
  per working day.
\<close>

definition wfTT :: "nat \<Rightarrow> timetable \<Rightarrow> bool" where
  "wfTT days tt = (distinct (map fst tt) \<and> (\<forall>kv \<in> set tt. length (snd kv) = days))"

text \<open>
  Every teacher and resource that stands in a cell is recorded as occupied in the
  schedule maps of the greedy pass.
\<close>

definition occupancyOK :: "timetable \<Rightarrow> scheduler \<Rightarrow> bool" where
  "occupancyOK tt st =
     (\<forall>c d p e. cellAt tt c d p = Some e \<longrightarrow>
        (\<forall>t. teacherId e = Some t \<longrightarrow> p \<in> teacherSchedule st t d)
        \<and> (\<forall>r. resourceId e = Some r \<longrightarrow> p \<in> resourceSchedule st r d))"

text \<open>
  No double-booking: two different classes never hold the same teacher, or the same
  resource, at the same day and period.
\<close>

definition noDoubleBooking :: "timetable \<Rightarrow> bool" where
  "noDoubleBooking tt =
     (\<forall>c1 c2 d p e1 e2. c1 \<noteq> c2 \<longrightarrow> cellAt tt c1 d p = Some e1 \<longrightarrow> cellAt tt c2 d p = Some e2 \<longrightarrow>
        (teacherId e1 \<noteq> None \<longrightarrow> teacherId e1 \<noteq> teacherId e2)
        \<and> (resourceId e1 \<noteq> None \<longrightarrow> resourceId e1 \<noteq> resourceId e2))"

text \<open>
  Double periods come in pairs: an assigned cell that is not flagged \<open>double\<close> has no
  \<open>headOfDouble\<close>; a double cell is a tail, or it is a head and the next cell of the row
  is its tail (same subject, teacher and resource).
\<close>

definition tailOf :: "entry \<Rightarrow> entry \<Rightarrow> bool" where
  "tailOf e e' =
     (subjectId e' = subjectId e \<and> teacherId e' = teacherId e \<and> resourceId e' = resourceId e
      \<and> double e' \<and> headOfDouble e' = Some False \<and> \<not> unassigned e')"

definition cellOK :: "timetable \<Rightarrow> string \<Rightarrow> nat \<Rightarrow> nat \<Rightarrow> entry \<Rightarrow> bool" where
  "cellOK tt c d p e =
     (if double e
      then headOfDouble e = Some False
           \<or> (headOfDouble e = Some True \<and> (\<exists>e'. cellAt tt c d (p + 1) = Some e' \<and> tailOf e e'))
      else headOfDouble e = None)"

definition pairsOK :: "timetable \<Rightarrow> bool" where
  "pairsOK tt = (\<forall>c d p e. cellAt tt c d p = Some e \<longrightarrow> \<not> unassigned e \<longrightarrow> cellOK tt c d p e)"

text \<open>
  The positions at which a teacher stands, the load limit \<open>maxLoadByTeacher.get(t) || 0\<close>,
  and the load invariant of the greedy pass: the cells of a teacher are counted by
  \<open>teacherLoads\<close>, which stays within the limit.
\<close>

definition teacherPositions :: "timetable \<Rightarrow> string \<Rightarrow> (string \<times> nat \<times> nat) set" where
  "teacherPositions tt t = {(c, d, p). cellHasTeacher t (cellAt tt c d p)}"

definition allPositions :: "timetable \<Rightarrow> (string \<times> nat \<times> nat) set" where
  "allPositions tt =
     (\<Union>kv \<in> set tt. {fst kv} \<times> (\<Union>d \<in> {..<length (snd kv)}. {d} \<times> {..<length (snd kv ! d)}))"

definition rowPositions :: "(cell \<Rightarrow> bool) \<Rightarrow> cell list \<Rightarrow> nat set" where
  "rowPositions P row = {p. p < length row \<and> P (row ! p)}"

definition gridPositions :: "(cell \<Rightarrow> bool) \<Rightarrow> grid \<Rightarrow> (nat \<times> nat) set" where
  "gridPositions P g = {(d, p). d < length g \<and> p \<in> rowPositions P (g ! d)}"

definition loadCap :: "schoolData \<Rightarrow> string \<Rightarrow> int" where
  "loadCap cfg t = (case maxLoadByTeacher (teachers cfg) t of None \<Rightarrow> 0 | Some m \<Rightarrow> m)"

definition loadsOK :: "schoolData \<Rightarrow> timetable \<Rightarrow> scheduler \<Rightarrow> bool" where
  "loadsOK cfg tt st =
     (\<forall>t. int (card (teacherPositions tt t)) \<le> teacherLoads st t
          \<and> teacherLoads st t \<le> max 0 (loadCap cfg t))"

definition greedyInv :: "schoolData \<Rightarrow> timetable \<times> scheduler \<Rightarrow> bool" where
  "greedyInv cfg ts =
     (wfTT (workingDays cfg) (fst ts) \<and> occupancyOK (fst ts) (snd ts) \<and> noDoubleBooking (fst ts)
      \<and> pairsOK (fst ts) \<and> loadsOK cfg (fst ts) (snd ts))"

definition optInv :: "schoolData \<Rightarrow> timetable \<Rightarrow> bool" where
  "optInv cfg tt = (wfTT (workingDays cfg) tt \<and> noDoubleBooking tt \<and> pairsOK tt)"

section \<open>Counting adjacent cells of one subject\<close>








section \<open>Counting the cells of a subject in a class\<close>

text \<open>
  The number of cells of the grid of class \<open>c\<close> that hold an entry, assigned or unassigned
  marker, with subject \<open>s\<close>; and the positions of a class whose cell satisfies \<open>P\<close>.
\<close>

definition cellHasSubject :: "string \<Rightarrow> cell \<Rightarrow> bool" where
  "cellHasSubject s c = (case c of None \<Rightarrow> False | Some e \<Rightarrow> subjectId e = s)"

definition subjectCellCount :: "timetable \<Rightarrow> string \<Rightarrow> string \<Rightarrow> nat" where
  "subjectCellCount tt c s = (\<Sum>row \<leftarrow> gridOf tt c. length (filter (cellHasSubject s) row))"

definition cellPositions :: "(cell \<Rightarrow> bool) \<Rightarrow> timetable \<Rightarrow> string \<Rightarrow> (nat \<times> nat) set" where
  "cellPositions P tt c = {(d, p). P (cellAt tt c d p)}"

definition isUsed :: "cell \<Rightarrow> bool" where
  "isUsed c = (c \<noteq> None)"

text \<open>
  The demand of the configuration: \<open>demandCells cfg c s\<close> adds the periods (one, or two
  for a double period) of the requirements that \<open>flattenRequired\<close> produces for class \<open>c\<close>
  and subject \<open>s\<close>, and \<open>classDemandCells cfg c\<close> those of all requirements of class \<open>c\<close>.
  \<open>subjectDouble cfg s\<close> is the \<open>doublePeriod\<close> flag the generator reads for subject \<open>s\<close>.
\<close>

definition demandCells :: "schoolData \<Rightarrow> string \<Rightarrow> string \<Rightarrow> nat" where
  "demandCells cfg c s =
     (\<Sum>r \<leftarrow> filter (\<lambda>r. req_classId r = c \<and> req_subjectId r = s) (flattenRequired cfg).
        periodSpan (requiresDouble r))"

definition classDemandCells :: "schoolData \<Rightarrow> string \<Rightarrow> nat" where
  "classDemandCells cfg c =
     (\<Sum>r \<leftarrow> filter (\<lambda>r. req_classId r = c) (flattenRequired cfg). periodSpan (requiresDouble r))"

definition subjectDouble :: "schoolData \<Rightarrow> string \<Rightarrow> bool" where
  "subjectDouble cfg s =
     doublePeriod (case subjectsById (subjects cfg) s of None \<Rightarrow> defaultSubject s | Some x \<Rightarrow> x)"

text \<open>
  The same demand read off the configuration: \<open>weeklyCount cfg c s\<close> adds the counts
  \<^verbatim>\<open>subjMap[s] | 0\<close> (a negative count asks for nothing) that the class records with id
  \<open>c\<close> configure for subject \<open>s\<close>, and \<open>classDemand cfg c\<close> the periods that all subjects
  of these class records ask for, a double period counted twice.
\<close>

definition weeklyCount :: "schoolData \<Rightarrow> string \<Rightarrow> string \<Rightarrow> nat" where
  "weeklyCount cfg c s =
     (\<Sum>cls \<leftarrow> filter (\<lambda>cls. class_id cls = c) (classes cfg).
        \<Sum>kv \<leftarrow> filter (\<lambda>kv. fst kv = s) (class_subjects cls). nat (toInt32 (snd kv)))"

definition classDemand :: "schoolData \<Rightarrow> string \<Rightarrow> nat" where
  "classDemand cfg c =
     (\<Sum>cls \<leftarrow> filter (\<lambda>cls. class_id cls = c) (classes cfg).
        \<Sum>kv \<leftarrow> class_subjects cls. nat (toInt32 (snd kv)) * periodSpan (subjectDouble cfg (fst kv)))"

section \<open>Example configurations\<close>

text \<open>
  \<open>cfgA\<close>: two classes with one lesson each; teacher \<open>t2\<close> is not available in the
  first period. \<open>cfgB\<close>: one class with two double periods of one subject.
\<close>

definition cfgA :: schoolData where
  "cfgA = \<lparr>workingDays = 1, periodsPerDay = 2,
     subjects = [\<lparr>subject_id = ''m'', subject_name = ''Math'', weeklyPeriods = 1, lab = False, doublePeriod = False, resourceType = None\<rparr>,
                 \<lparr>subject_id = ''e'', subject_name = ''Eng'', weeklyPeriods = 1, lab = False, doublePeriod = False, resourceType = None\<rparr>],
     teachers = [\<lparr>teacher_id = ''t1'', teacher_subjects = [''m''], maxLoad = 5, teacher_availability = [[True, True]]\<rparr>,
                 \<lparr>teacher_id = ''t2'', teacher_subjects = [''e''], maxLoad = 5, teacher_availability = [[False, True]]\<rparr>],
     classes = [\<lparr>class_id = ''c1'', class_subjects = [(''m'', 1)]\<rparr>, \<lparr>class_id = ''c2'', class_subjects = [(''e'', 1)]\<rparr>],
     resources = []\<rparr>"

definition cfgB :: schoolData where
  "cfgB = \<lparr>workingDays = 1, periodsPerDay = 4,
     subjects = [\<lparr>subject_id = ''m'', subject_name = ''Math'', weeklyPeriods = 2, lab = False, doublePeriod = True, resourceType = None\<rparr>],
     teachers = [\<lparr>teacher_id = ''t1'', teacher_subjects = [''m''], maxLoad = 5, teacher_availability = [[True, True, True, True]]\<rparr>],
     classes = [\<lparr>class_id = ''c1'', class_subjects = [(''m'', 2)]\<rparr>],
     resources = []\<rparr>"

definition eA :: entry where "eA = \<lparr>ref = 0, subjectId = ''m'', teacherId = Some ''t1'',
          resourceId = None, double = False, headOfDouble = None, unassigned = False\<rparr>"
definition eB :: entry where "eB = \<lparr>ref = 1, subjectId = ''e'', teacherId = Some ''t2'',
          resourceId = None, double = False, headOfDouble = None, unassigned = False\<rparr>"

definition hB :: "nat \<Rightarrow> entry" where "hB r = \<lparr>ref = r, subjectId = ''m'', teacherId = Some ''t1'',
          resourceId = None, double = True, headOfDouble = Some True, unassigned = False\<rparr>"
definition tB :: "nat \<Rightarrow> entry" where "tB r = \<lparr>ref = r, subjectId = ''m'', teacherId = Some ''t1'',
          resourceId = None, double = True, headOfDouble = Some False, unassigned = False\<rparr>"

definition ttA :: timetable where "ttA = [(''c1'', [[Some eA, None]]), (''c2'', [[None, Some eB]])]"
definition ttB :: timetable where "ttB = [(''c1'', [[Some (hB 0), Some (tB 1), Some (hB 2), Some (tB 3)]])]"
definition seed3 :: options where "seed3 = \<lparr>optimizeIterations = Some 1, seed = Some 3\<rparr>"

definition itemA1 :: poolItem where "itemA1 = \<lparr>classId = ''c1'', day = 0, period = 0, item_entry = eA\<rparr>"
definition itemA2 :: poolItem where "itemA2 = \<lparr>classId = ''c2'', day = 0, period = 1, item_entry = eB\<rparr>"
definition itemB1 :: poolItem where "itemB1 = \<lparr>classId = ''c1'', day = 0, period = 0, item_entry = hB 0\<rparr>"
definition itemB2 :: poolItem where "itemB2 = \<lparr>classId = ''c1'', day = 0, period = 2, item_entry = hB 2\<rparr>"
definition ttA' :: timetable where "ttA' = [(''c1'', [[Some (eA\<lparr>ref := 3\<rparr>), None]]), (''c2'', [[None, None]])]"
definition ttB' :: timetable where "ttB' = [(''c1'', [[Some (hB 6), Some (tB 7), None, None]])]"

text \<open>
  \<open>cfgC\<close>: as \<open>cfgA\<close>, with both teachers available in both periods, so that the two
  classes have their lessons at the same time. \<open>cfgD\<close>: as \<open>cfgB\<close>, with a teacher who
  may teach two periods only.
\<close>

definition cfgC :: schoolData where
  "cfgC = cfgA\<lparr>teachers :=
     [\<lparr>teacher_id = ''t1'', teacher_subjects = [''m''], maxLoad = 5, teacher_availability = [[True, True]]\<rparr>,
      \<lparr>teacher_id = ''t2'', teacher_subjects = [''e''], maxLoad = 5, teacher_availability = [[True, True]]\<rparr>]\<rparr>"

definition ttC :: timetable where "ttC = [(''c1'', [[Some eA, None]]), (''c2'', [[Some eB, None]])]"

definition itemC2 :: poolItem where "itemC2 = \<lparr>classId = ''c2'', day = 0, period = 0, item_entry = eB\<rparr>"

definition teacherD :: teacher where
  "teacherD = \<lparr>teacher_id = ''t1'', teacher_subjects = [''m''], maxLoad = 2,
               teacher_availability = [[True, True, True, True]]\<rparr>"

definition cfgD :: schoolData where
  "cfgD = cfgB\<lparr>teachers := [teacherD]\<rparr>"

definition ttD :: timetable where
  "ttD = [(''c1'', [[Some (hB 0), Some (tB 1), Some (unassignedMarker 2 ''m''), Some (unassignedMarker 3 ''m'')]])]"

definition noOptimizer :: options where "noOptimizer = \<lparr>optimizeIterations = Some 0, seed = None\<rparr>"

text \<open>
  \<open>cfgE\<close>: one class with three lessons of one subject, and two teacher records that
  share the id \<open>t1\<close>, the first with \<open>maxLoad = 1\<close> and the second with \<open>maxLoad = 3\<close>.
\<close>

definition teacherE1 :: teacher where
  "teacherE1 = \<lparr>teacher_id = ''t1'', teacher_subjects = [''m''], maxLoad = 1,
                teacher_availability = [[True, True, True]]\<rparr>"

definition teacherE2 :: teacher where
  "teacherE2 = \<lparr>teacher_id = ''t1'', teacher_subjects = [''m''], maxLoad = 3,
                teacher_availability = [[True, True, True]]\<rparr>"

definition cfgE :: schoolData where
  "cfgE = \<lparr>workingDays = 1, periodsPerDay = 3,
     subjects = [\<lparr>subject_id = ''m'', subject_name = ''Math'', weeklyPeriods = 3, lab = False,
                  doublePeriod = False, resourceType = None\<rparr>],
     teachers = [teacherE1, teacherE2],
     classes = [\<lparr>class_id = ''c1'', class_subjects = [(''m'', 3)]\<rparr>],
     resources = []\<rparr>"

definition ttE :: timetable where
  "ttE = [(''c1'', [[Some eA, Some (eA\<lparr>ref := 1\<rparr>), Some (eA\<lparr>ref := 2\<rparr>)]])]"

text \<open>
  \<open>cfgF\<close>: as \<open>cfgB\<close>, with three double periods asked for on a day of four periods.
\<close>

definition cfgF :: schoolData where
  "cfgF = cfgB\<lparr>classes := [\<lparr>class_id = ''c1'', class_subjects = [(''m'', 3)]\<rparr>]\<rparr>"

section \<open>Basic facts about grids and timetables\<close>

declare bitLength.simps [simp del]

lemma map_fst_replaceGrid [simp]: "map fst (replaceGrid tt c g) = map fst tt"
  by (induction tt) (auto simp: replaceGrid_def)

lemma length_replaceGrid [simp]: "length (replaceGrid tt c g) = length tt"
  by (simp add: replaceGrid_def)

lemma map_of_replaceGrid:
  "map_of (replaceGrid tt c g) k = (if k = c \<and> c \<in> fst ` set tt then Some g else map_of tt k)"
  by (induction tt) (force simp: replaceGrid_def)+

lemma gridOf_replaceGrid:
  "gridOf (replaceGrid tt c g) k = (if k = c \<and> c \<in> fst ` set tt then g else gridOf tt k)"
  by (simp add: gridOf_def obj_get_def map_of_replaceGrid)

lemma gridAt_gridSet:
  "gridAt (gridSet g d p v) d' p' = (if d < length g \<and> d' = d \<and> p' = p then v else gridAt g d' p')"
  by (auto simp: gridAt_def gridSet_def js_set_def nth_list_update nth_append)

lemma length_gridSet [simp]: "length (gridSet g d p v) = length g"
  by (simp add: gridSet_def)

section \<open>Evaluation on concrete inputs\<close>

lemmas eval_defs =
  truthy_def truthyOpt_def toInt32_def obj_get_def isDigit_def digitsValue_def isArrayIndex_def
  object_entries_def js_set_def makeEmptyGrid_def gridAt_def gridSet_def gridOf_def cellAt_def
  subjectsById_def teachersById_def resourcesByType_def toLowerCase_def inferSubjectResourceType_def
  teacherCanTeach_def availableAt_def checkTeacherAvailability_def slotsAreFree_def
  teacherFreeSchedule_def occupy_def resourceFree_def resourceOccupied_def periodSpan_def
  periodsOf_def candidateSlots_def totalTeacherLoad_def incTeacherLoad_def maxLoadOf_def
  teacherQualifies_def findResource_def assignedEntry_def unassignedMarker_def commitPlacement_def
  markUnassigned_def tryAssignSlot_def defaultSubject_def requirementsFor_def flattenRequired_def
  compareRequired_def sortRequired_def emptyTimetable_def maxLoadByTeacher_def teacherOrder_def
  argsFor_def replaceGrid_def assignStep_def initialScheduler_def greedyAssign_def
  bumpLoad_def markUsage_def sameSubjectNext_def diagCell_def diagGrid_def gapCount_def gapPenalty_def
  diagScan_def computeDiagnostics_def computePenalty_def poolCell_def collectAssignedSlots_def
  destFree_def clashes_def teacherHasConflict_def spanOf_def swapFeasible_def cellSet_def
  moveEntry_def applySwap_def samePlace_def trySwap_def

lemma replicate_numeral: "replicate (numeral k) x = x # replicate (pred_numeral k) x"
  by (simp add: numeral_eq_Suc)

lemma list_update_numeral: "(x # xs)[numeral k := y] = x # xs[pred_numeral k := y]"
  by (simp add: numeral_eq_Suc)

lemmas eval_nat = replicate_numeral list_update_numeral upt_conv_Cons

lemma bitLength_0: "bitLength 0 = 0"
  by (simp add: bitLength.simps)

lemma bitLength_1: "bitLength (Suc 0) = Suc 0" "bitLength 1 = Suc 0"
  by (simp_all add: bitLength.simps)

lemma bitLength_numeral: "bitLength (numeral k) = Suc (bitLength (numeral k div 2))"
  by (subst bitLength.simps) simp

lemma normShift_numeral:
  "normShift (numeral f) s d = (if d \<le> s then 0 else Suc (normShift (pred_numeral f) (2 * s) d))"
  by (simp add: numeral_eq_Suc)

lemmas eval_rng = createRng_def rng_next_def pickIndex_def nextFloat_def floorTimes_def
  roundHalfEven_def bitLength_0 bitLength_1 bitLength_numeral normShift_numeral Let_def

section \<open>Snapshot, rollback and the score of the optimizer\<close>

subsection \<open>Keys\<close>

lemma keys_obj_set: "fst ` set (obj_set tt k v) = insert k (fst ` set tt)"
proof (induction tt)
  case (Cons kv tt)
  then show ?case by (cases kv) (simp add: insert_commute)
qed simp

lemma distinct_obj_set: "distinct (map fst tt) \<Longrightarrow> distinct (map fst (obj_set tt k v))"
  by (induction tt) (auto simp: keys_obj_set)

lemma map_fst_cellSet [simp]: "map fst (cellSet tt c d p v) = map fst tt"
  by (simp add: cellSet_def)

lemma map_fst_moveEntry [simp]: "map fst (fst (moveEntry tn sc s dc d)) = map fst (fst tn)"
  by (simp add: moveEntry_def Let_def split: option.splits)

lemma map_fst_applySwap [simp]: "map fst (fst (applySwap a b tn)) = map fst (fst tn)"
  by (simp add: applySwap_def)

subsection \<open>Writes that stay inside given classes\<close>

lemma touches_refl: "touches S tt tt"
  by (simp add: touches_def list_all2_same)

lemma touches_trans: "touches S t1 t2 \<Longrightarrow> touches S t2 t3 \<Longrightarrow> touches S t1 t3"
  by (auto simp: touches_def list_all2_conv_all_nth)

lemma touches_replaceGrid: "c \<in> S \<Longrightarrow> touches S tt (replaceGrid tt c g)"
  by (auto simp: touches_def replaceGrid_def list_all2_map2 intro!: list_all2_same[THEN iffD2])

lemma touches_cellSet: "c \<in> S \<Longrightarrow> touches S tt (cellSet tt c d p v)"
  by (simp add: cellSet_def touches_replaceGrid)

lemma touches_moveEntry:
  "sc \<in> S \<Longrightarrow> dc \<in> S \<Longrightarrow> touches S (fst tn) (fst (moveEntry tn sc s dc d))"
proof (cases "cellAt (fst tn) sc (day s) (period s)")
  case None
  then show ?thesis by (simp add: moveEntry_def touches_refl)
next
  case (Some e)
  assume sc: "sc \<in> S" and dc: "dc \<in> S"
  define t1 where "t1 = cellSet (fst tn) sc (day s) (period s) None"
  define t2 where "t2 = (if double e then cellSet t1 sc (day s) (period s + 1) None else t1)"
  define t3 where "t3 = cellSet t2 dc (day d) (period d)
                     (Some (e\<lparr>ref := snd tn, headOfDouble := (if double e then Some True else None)\<rparr>))"
  define t4 where "t4 = (if double e
                    then cellSet t3 dc (day d) (period d + 1)
                           (Some (e\<lparr>ref := snd tn + 1, headOfDouble := Some False\<rparr>))
                    else t3)"
  have r: "fst (moveEntry tn sc s dc d) = t4"
    by (simp add: moveEntry_def Some Let_def t1_def t2_def t3_def t4_def)
  have "touches S (fst tn) t1" by (simp add: t1_def touches_cellSet sc)
  moreover have "touches S t1 t2" by (simp add: t2_def touches_cellSet sc touches_refl)
  moreover have "touches S t2 t3" by (simp add: t3_def touches_cellSet dc)
  moreover have "touches S t3 t4" by (simp add: t4_def touches_cellSet dc touches_refl)
  ultimately show ?thesis unfolding r by (blast intro: touches_trans)
qed

lemma touches_applySwap: "touches {classId a, classId b} tt (fst (applySwap a b (tt, n)))"
proof -
  have "touches {classId a, classId b} (fst (tt, n)) (fst (moveEntry (tt, n) (classId a) a (classId b) b))"
    by (rule touches_moveEntry) simp_all
  moreover have "touches {classId a, classId b} (fst (moveEntry (tt, n) (classId a) a (classId b) b))
      (fst (moveEntry (moveEntry (tt, n) (classId a) a (classId b) b) (classId b) b (classId a) a))"
    by (rule touches_moveEntry) simp_all
  ultimately show ?thesis by (auto simp: applySwap_def intro: touches_trans)
qed

lemma restore_snapshot:
  assumes "touches {a, b} tt tt'" and "distinct (map fst tt)"
  shows "replaceGrid (replaceGrid tt' a (gridOf tt a)) b (gridOf tt b) = tt"
proof (rule nth_equalityI)
  have len: "length tt' = length tt"
    using assms(1) by (simp add: touches_def list_all2_lengthD)
  show "length (replaceGrid (replaceGrid tt' a (gridOf tt a)) b (gridOf tt b)) = length tt"
    by (simp add: len)
  fix i assume "i < length (replaceGrid (replaceGrid tt' a (gridOf tt a)) b (gridOf tt b))"
  then have i: "i < length tt" by (simp add: len)
  have rel: "fst (tt' ! i) = fst (tt ! i)" "fst (tt ! i) \<notin> {a, b} \<Longrightarrow> snd (tt' ! i) = snd (tt ! i)"
    using assms(1) i by (auto simp: touches_def list_all2_conv_all_nth)
  have look: "map_of tt (fst (tt ! i)) = Some (snd (tt ! i))"
    using assms(2) i by (metis map_of_is_SomeI nth_mem prod.collapse)
  show "replaceGrid (replaceGrid tt' a (gridOf tt a)) b (gridOf tt b) ! i = tt ! i"
    using i len rel look
    by (cases "tt ! i"; cases "tt' ! i") (auto simp: replaceGrid_def gridOf_def obj_get_def)
qed

lemma trySwap_rejected:
  assumes "distinct (map fst (opt_timetable st))"
      and "\<not> computePenalty (fst (applySwap a b (opt_timetable st, opt_nextRef st))) cfg < bestPenalty st"
  shows "opt_timetable (trySwap cfg a b st) = opt_timetable st"
    and "bestPenalty (trySwap cfg a b st) = bestPenalty st"
  using assms restore_snapshot[OF touches_applySwap assms(1)]
  by (simp_all add: trySwap_def Let_def computePenalty_def)

lemma trySwap_accepted:
  assumes "computePenalty (fst (applySwap a b (opt_timetable st, opt_nextRef st))) cfg < bestPenalty st"
  shows "opt_timetable (trySwap cfg a b st) = fst (applySwap a b (opt_timetable st, opt_nextRef st))"
    and "bestPenalty (trySwap cfg a b st) = computePenalty (fst (applySwap a b (opt_timetable st, opt_nextRef st))) cfg"
  using assms by (simp_all add: trySwap_def Let_def computePenalty_def)

subsection \<open>The optimizer keeps its score in step with the timetable\<close>

lemma trySwap_consistent: "consistent cfg st \<Longrightarrow> consistent cfg (trySwap cfg a b st)"
  by (cases "computePenalty (fst (applySwap a b (opt_timetable st, opt_nextRef st))) cfg < bestPenalty st")
     (simp_all add: consistent_def trySwap_accepted trySwap_rejected)

lemma trySwap_le: "bestPenalty (trySwap cfg a b st) \<le> bestPenalty st"
  by (simp add: trySwap_def Let_def)

lemma trySwap_rng [simp]: "opt_rng (trySwap cfg a b st) = opt_rng st"
  by (simp add: trySwap_def Let_def)

lemma iteration_cases:
  assumes "optimizerIteration cfg st = Some st'"
  obtains (skip) "opt_timetable st' = opt_timetable st" "bestPenalty st' = bestPenalty st"
                 "opt_nextRef st' = opt_nextRef st"
        | (trial) a b where "a \<in> set (collectAssignedSlots (opt_timetable st) cfg)"
                 "b \<in> set (collectAssignedSlots (opt_timetable st) cfg)"
                 "\<not> samePlace a b" "swapFeasible a b (opt_timetable st) cfg"
                 "st' = trySwap cfg a b (st\<lparr>opt_rng := rng_next (rng_next (opt_rng st))\<rparr>)"
proof -
  define pool where "pool = collectAssignedSlots (opt_timetable st) cfg"
  define i where "i = pickIndex (rng_next (opt_rng st)) (length pool)"
  define j where "j = pickIndex (rng_next (rng_next (opt_rng st))) (length pool)"
  define st2 where "st2 = st\<lparr>opt_rng := rng_next (rng_next (opt_rng st))\<rparr>"
  have eq: "optimizerIteration cfg st =
      (if length pool < 2 then None
       else if length pool \<le> i \<or> length pool \<le> j then Some st2
       else if samePlace (pool ! i) (pool ! j) then Some st2
       else if \<not> swapFeasible (pool ! i) (pool ! j) (opt_timetable st) cfg then Some st2
       else Some (trySwap cfg (pool ! i) (pool ! j) st2))"
    by (simp add: optimizerIteration_def Let_def pool_def i_def j_def st2_def)
  show thesis
  proof (cases "st' = st2")
    case True
    then show thesis using skip by (simp add: st2_def)
  next
    case False
    with assms eq have c: "i < length pool" "j < length pool" "\<not> samePlace (pool ! i) (pool ! j)"
        "swapFeasible (pool ! i) (pool ! j) (opt_timetable st) cfg"
        "st' = trySwap cfg (pool ! i) (pool ! j) st2"
      by (auto split: if_splits)
    show thesis
      by (rule trial[of "pool ! i" "pool ! j"]) (use c in \<open>auto simp: pool_def st2_def\<close>)
  qed
qed

lemma consistent_rng [simp]: "consistent cfg (st\<lparr>opt_rng := s\<rparr>) = consistent cfg st"
  by (simp add: consistent_def)

lemma iteration_consistent:
  assumes "consistent cfg st" and "optimizerIteration cfg st = Some st'"
  shows "consistent cfg st'"
  using assms(2)
proof (cases rule: iteration_cases)
  case skip
  then show ?thesis using assms(1) by (simp add: consistent_def)
next
  case (trial a b)
  then show ?thesis using assms(1) by (simp add: trySwap_consistent)
qed

lemma iteration_le:
  assumes "optimizerIteration cfg st = Some st'"
  shows "bestPenalty st' \<le> bestPenalty st"
  using assms
proof (cases rule: iteration_cases)
  case skip
  then show ?thesis by simp
next
  case (trial a b)
  then show ?thesis
    using trySwap_le[of cfg a b "st\<lparr>opt_rng := rng_next (rng_next (opt_rng st))\<rparr>"] by simp
qed

lemma loop_consistent: "consistent cfg st \<Longrightarrow> consistent cfg (optimizeLoop cfg n st)"
proof (induction n arbitrary: st)
  case (Suc n)
  show ?case
  proof (cases "optimizerIteration cfg st")
    case (Some st')
    then show ?thesis using Suc.IH[of st'] iteration_consistent[OF Suc.prems Some] by simp
  qed (simp add: Suc.prems)
qed simp

lemma loop_le: "bestPenalty (optimizeLoop cfg n st) \<le> bestPenalty st"
proof (induction n arbitrary: st)
  case (Suc n)
  show ?case
  proof (cases "optimizerIteration cfg st")
    case (Some st')
    then show ?thesis using Suc[of st'] iteration_le[OF Some] by simp
  qed simp
qed simp

lemma loop_after_break: "optimizerIteration cfg st = None \<Longrightarrow> optimizeLoop cfg k st = st"
  by (cases k) simp_all

lemma loop_add: "optimizeLoop cfg (n + k) st = optimizeLoop cfg k (optimizeLoop cfg n st)"
proof (induction n arbitrary: st)
  case (Suc n)
  show ?case
  proof (cases "optimizerIteration cfg st")
    case None
    then show ?thesis by (simp add: loop_after_break)
  next
    case (Some st')
    then show ?thesis using Suc[of st'] by simp
  qed
qed simp

lemma distinct_foldl_obj_set:
  "distinct (map fst tt) \<Longrightarrow> distinct (map fst (foldl (\<lambda>tt c. obj_set tt (f c) (g c)) tt cs))"
  by (induction cs arbitrary: tt) (simp_all add: distinct_obj_set)

lemma distinct_emptyTimetable: "distinct (map fst (emptyTimetable cfg))"
  unfolding emptyTimetable_def by (rule distinct_foldl_obj_set) simp

lemma map_fst_assignStep [simp]: "map fst (fst (assignStep cfg ts slot)) = map fst (fst ts)"
  by (simp add: assignStep_def Let_def)

lemma map_fst_foldl_assignStep: "map fst (fst (foldl (assignStep cfg) ts rs)) = map fst (fst ts)"
  by (induction rs arbitrary: ts) simp_all

lemma map_fst_greedyAssign: "map fst (fst (greedyAssign cfg)) = map fst (emptyTimetable cfg)"
  by (simp add: greedyAssign_def map_fst_foldl_assignStep)

lemma startState_consistent: "consistent cfg (startState cfg opts)"
  by (simp add: consistent_def startState_def Let_def computePenalty_def map_fst_greedyAssign
        distinct_emptyTimetable)

lemma iteration_unaccepted:
  assumes "consistent cfg st" and "optimizerIteration cfg st = Some st'"
      and "\<not> bestPenalty st' < bestPenalty st"
  shows "opt_timetable st' = opt_timetable st"
  using assms(2)
proof (cases rule: iteration_cases)
  case skip
  then show ?thesis by simp
next
  case (trial a b)
  let ?st2 = "st\<lparr>opt_rng := rng_next (rng_next (opt_rng st))\<rparr>"
  have "\<not> computePenalty (fst (applySwap a b (opt_timetable ?st2, opt_nextRef ?st2))) cfg < bestPenalty ?st2"
    using assms(3) trial(5) trySwap_accepted(2)[of a b ?st2 cfg] by auto
  moreover have "distinct (map fst (opt_timetable ?st2))"
    using assms(1) by (simp add: consistent_def)
  ultimately show ?thesis
    using trySwap_rejected(1)[of ?st2 a b cfg] trial(5) by simp
qed

lemma loop_step_unaccepted:
  assumes "\<not> bestPenalty (optimizeLoop cfg (Suc n) (startState cfg opts))
             < bestPenalty (optimizeLoop cfg n (startState cfg opts))"
  shows "opt_timetable (optimizeLoop cfg (Suc n) (startState cfg opts))
           = opt_timetable (optimizeLoop cfg n (startState cfg opts))"
proof -
  let ?s = "optimizeLoop cfg n (startState cfg opts)"
  have c: "consistent cfg ?s" by (rule loop_consistent[OF startState_consistent])
  have step: "optimizeLoop cfg (Suc n) (startState cfg opts) = optimizeLoop cfg 1 ?s"
    using loop_add[of cfg n 1] by simp
  show ?thesis
  proof (cases "optimizerIteration cfg ?s")
    case None
    then show ?thesis using step by simp
  next
    case (Some st')
    then show ?thesis using iteration_unaccepted[OF c Some] assms step by simp
  qed
qed

section \<open>The two examples, evaluated\<close>

lemma greedy_cfgA: "fst (greedyAssign cfgA) = ttA" "nextRef (snd (greedyAssign cfgA)) = 2"
  by (simp_all add: cfgA_def eval_defs Let_def eA_def eB_def ttA_def eval_nat)

lemma greedy_cfgB: "fst (greedyAssign cfgB) = ttB" "nextRef (snd (greedyAssign cfgB)) = 4"
  by (simp_all add: cfgB_def eval_defs Let_def hB_def tB_def ttB_def eval_nat)


lemma penalty_ttB: "penaltyScore (computeDiagnostics ttB cfgB) = 30"
  by (simp add: cfgB_def eval_defs Let_def hB_def tB_def ttB_def eval_nat)


lemma start_cfgB: "startState cfgB seed3 = \<lparr>opt_timetable = ttB, bestPenalty = 30, opt_rng = 3, opt_nextRef = 4\<rparr>"
  by (simp add: startState_def Let_def greedy_cfgB penalty_ttB seedOf_def seed3_def createRng_def)

lemma pool_ttA: "collectAssignedSlots ttA cfgA = [itemA1, itemA2]"
  by (simp add: cfgA_def eval_defs Let_def eA_def eB_def ttA_def eval_nat List.map_filter_def itemA1_def itemA2_def)

lemma pool_ttB: "collectAssignedSlots ttB cfgB = [itemB1, itemB2]"
  by (simp add: cfgB_def eval_defs Let_def hB_def tB_def ttB_def eval_nat List.map_filter_def itemB1_def itemB2_def)

lemma draws: "rng_next 3 = 1018897798" "rng_next 1018897798 = 2365144877"
  "pickIndex 1018897798 (Suc (Suc 0)) = 0" "pickIndex 2365144877 (Suc (Suc 0)) = Suc 0"
  unfolding numeral_2_eq_2[symmetric] by (simp_all add: eval_rng)

lemma feasible_ttA: "swapFeasible itemA1 itemA2 ttA cfgA" "\<not> samePlace itemA1 itemA2"
  by (simp_all add: cfgA_def eval_defs Let_def eA_def eB_def ttA_def itemA1_def itemA2_def)

lemma feasible_ttB: "swapFeasible itemB1 itemB2 ttB cfgB" "\<not> samePlace itemB1 itemB2"
  by (simp_all add: cfgB_def eval_defs Let_def hB_def tB_def ttB_def itemB1_def itemB2_def)

lemma swap_ttA: "applySwap itemA1 itemA2 (ttA, 2) = (ttA', 4)"
  by (simp add: eval_defs Let_def eA_def eB_def ttA_def ttA'_def itemA1_def itemA2_def)

lemma swap_ttB: "applySwap itemB1 itemB2 (ttB, 4) = (ttB', 8)"
  by (simp add: eval_defs Let_def hB_def tB_def ttB_def ttB'_def eval_nat itemB1_def itemB2_def)


lemma penalty_after_B: "penaltyScore (computeDiagnostics ttB' cfgB) = 10"
  by (simp add: cfgB_def eval_defs Let_def hB_def tB_def eval_nat ttB'_def)



lemma run_cfgB: "optimizeLoop cfgB (Suc 0) (startState cfgB seed3)
   = \<lparr>opt_timetable = ttB', bestPenalty = 10, opt_rng = 2365144877, opt_nextRef = 8\<rparr>"
proof -
  let ?s = "\<lparr>opt_timetable = ttB, bestPenalty = 30, opt_rng = 2365144877, opt_nextRef = 4\<rparr>"
  have it: "optimizerIteration cfgB (startState cfgB seed3) = Some (trySwap cfgB itemB1 itemB2 ?s)"
    by (simp add: start_cfgB optimizerIteration_def pool_ttB draws Let_def feasible_ttB)
  have "trySwap cfgB itemB1 itemB2 ?s = ?s\<lparr>opt_timetable := ttB', bestPenalty := 10, opt_nextRef := 8\<rparr>"
    by (simp add: trySwap_def Let_def swap_ttB penalty_after_B)
  with it show ?thesis by simp
qed

lemma greedy_cfgC: "fst (greedyAssign cfgC) = ttC" "nextRef (snd (greedyAssign cfgC)) = 2"
  by (simp_all add: cfgC_def cfgA_def eval_defs Let_def eA_def eB_def ttC_def eval_nat)

lemma penalty_ttC: "penaltyScore (computeDiagnostics ttC cfgC) = 0"
  by (simp add: cfgC_def cfgA_def eval_defs Let_def eA_def eB_def ttC_def eval_nat)

lemma start_cfgC: "startState cfgC seed3 = \<lparr>opt_timetable = ttC, bestPenalty = 0, opt_rng = 3, opt_nextRef = 2\<rparr>"
  by (simp add: startState_def Let_def greedy_cfgC penalty_ttC seedOf_def seed3_def createRng_def)

lemma pool_ttC: "collectAssignedSlots ttC cfgC = [itemA1, itemC2]"
  by (simp add: cfgC_def cfgA_def eval_defs Let_def eA_def eB_def ttC_def eval_nat List.map_filter_def
        itemA1_def itemC2_def)

lemma infeasible_ttC: "\<not> swapFeasible itemA1 itemC2 ttC cfgC" "\<not> samePlace itemA1 itemC2"
  by (simp_all add: cfgC_def cfgA_def eval_defs Let_def eA_def eB_def ttC_def itemA1_def itemC2_def)

lemma run_cfgC: "optimizeLoop cfgC (Suc 0) (startState cfgC seed3)
   = \<lparr>opt_timetable = ttC, bestPenalty = 0, opt_rng = 2365144877, opt_nextRef = 2\<rparr>"
  by (simp add: start_cfgC optimizerIteration_def pool_ttC draws Let_def infeasible_ttC)

lemma greedy_cfgD: "fst (greedyAssign cfgD) = ttD"
  by (simp add: cfgD_def cfgB_def teacherD_def eval_defs Let_def hB_def tB_def ttD_def eval_nat)

lemma count_ttD: "teacherCellCount ttD ''t1'' = 2"
  by (simp add: teacherCellCount_def cellHasTeacher_def ttD_def hB_def tB_def unassignedMarker_def)

lemma greedy_cfgE: "fst (greedyAssign cfgE) = ttE"
  by (simp add: cfgE_def teacherE1_def teacherE2_def eval_defs Let_def eA_def ttE_def eval_nat)

lemma count_ttE: "teacherCellCount ttE ''t1'' = 3"
  by (simp add: teacherCellCount_def cellHasTeacher_def ttE_def eA_def)

lemma loadCap_cfgD: "loadCap cfgD ''t1'' = 2"
  by (simp add: loadCap_def maxLoadByTeacher_def teachersById_def cfgD_def teacherD_def)

section \<open>Invariants of the greedy pass\<close>

lemma gridOf_mem: "distinct (map fst tt) \<Longrightarrow> (c, g) \<in> set tt \<Longrightarrow> gridOf tt c = g"
  by (simp add: gridOf_def obj_get_def)

lemma gridOf_not_key: "c \<notin> fst ` set tt \<Longrightarrow> gridOf tt c = []"
  by (simp add: gridOf_def obj_get_def map_of_eq_None_iff[THEN iffD2])

lemma key_gridOf: "c \<in> fst ` set tt \<Longrightarrow> (c, gridOf tt c) \<in> set tt"
  by (auto simp: gridOf_def obj_get_def split: option.splits dest: map_of_SomeD
        simp: map_of_eq_None_iff)

lemma wfTT_rows: "wfTT days tt \<Longrightarrow> c \<in> fst ` set tt \<Longrightarrow> length (gridOf tt c) = days"
  using key_gridOf[of c tt] by (auto simp: wfTT_def)

lemma set_replaceGrid:
  "kv \<in> set (replaceGrid tt c g) \<Longrightarrow> kv \<in> set tt \<or> (kv = (c, g) \<and> c \<in> fst ` set tt)"
  by (force simp: replaceGrid_def split: if_splits)

lemma wfTT_replaceGrid: "wfTT days tt \<Longrightarrow> length g = days \<Longrightarrow> wfTT days (replaceGrid tt c g)"
  using set_replaceGrid[of _ tt c g] by (fastforce simp: wfTT_def)

lemma keys_replaceGrid [simp]: "fst ` set (replaceGrid tt c g) = fst ` set tt"
  using map_fst_replaceGrid[of tt c g] by (metis list.set_map)

lemma replaceGrid_same: "distinct (map fst tt) \<Longrightarrow> replaceGrid tt c (gridOf tt c) = tt"
proof (rule nth_equalityI)
  fix i assume d: "distinct (map fst tt)" and "i < length (replaceGrid tt c (gridOf tt c))"
  then have i: "i < length tt" by simp
  then have "(fst (tt ! i), snd (tt ! i)) \<in> set tt" by simp
  from gridOf_mem[OF d this] i show "replaceGrid tt c (gridOf tt c) ! i = tt ! i"
    by (cases "tt ! i") (auto simp: replaceGrid_def)
qed simp

lemma cellAt_replaceGrid:
  "cellAt (replaceGrid tt c g) c' d p = (if c' = c \<and> c \<in> fst ` set tt then gridAt g d p else cellAt tt c' d p)"
  by (simp add: cellAt_def gridOf_replaceGrid)

lemma cellAt_cellSet:
  "c \<in> fst ` set tt \<Longrightarrow> d < length (gridOf tt c) \<Longrightarrow>
   cellAt (cellSet tt c d p v) c' d' p' = (if c' = c \<and> d' = d \<and> p' = p then v else cellAt tt c' d' p')"
  by (simp add: cellSet_def cellAt_replaceGrid gridAt_gridSet) (simp add: cellAt_def)

lemma gridOf_cellSet_length [simp]: "length (gridOf (cellSet tt c d p v) c') = length (gridOf tt c')"
  by (simp add: cellSet_def gridOf_replaceGrid)

lemma keys_cellSet [simp]: "fst ` set (cellSet tt c d p v) = fst ` set tt"
  by (simp add: cellSet_def)

lemma wfTT_cellSet: "wfTT days tt \<Longrightarrow> wfTT days (cellSet tt c d p v)"
proof (cases "c \<in> fst ` set tt")
  case True
  assume "wfTT days tt"
  then show ?thesis unfolding cellSet_def
    by (rule wfTT_replaceGrid) (simp add: wfTT_rows[OF \<open>wfTT days tt\<close> True])
next
  case False
  assume "wfTT days tt"
  then show ?thesis using False set_replaceGrid[of _ tt c]
    by (fastforce simp: wfTT_def cellSet_def)
qed

lemma cellAt_SomeD:
  "cellAt tt c d p = Some e \<Longrightarrow> c \<in> fst ` set tt \<and> d < length (gridOf tt c) \<and> p < length (gridOf tt c ! d)"
  by (cases "c \<in> fst ` set tt") (auto simp: cellAt_def gridAt_def gridOf_not_key split: if_splits)

subsection \<open>What the searches of tryAssignSlot return\<close>

lemma find_SomeD: "find P xs = Some x \<Longrightarrow> x \<in> set xs \<and> P x"
  by (induction xs) (auto split: if_splits)

lemma candidateSlots_mem:
  "(d, p) \<in> set (candidateSlots dc pc span) \<longleftrightarrow> d < dc \<and> p < pc + 1 - span"
  by (force simp: candidateSlots_def)

lemma tryTeachers_SomeD:
  "tryTeachers args st dy ps ts = Some (tid, r) \<Longrightarrow>
     teacherQualifies args st tid dy ps
     \<and> (case r of None \<Rightarrow> True
         | Some res \<Rightarrow> resourceFree res dy ps
                      \<and> \<not> resourceOccupied (resourceSchedule st) (resource_id res) dy ps)"
  by (induction ts) (auto simp: findResource_def dest: find_SomeD split: if_splits option.splits)

lemma findPlacement_SomeD:
  "findPlacement args g st slots = Some (d, p, tid, r) \<Longrightarrow>
     (d, p) \<in> set slots \<and> slotsAreFree g d (periodsOf (arg_requiresDouble args) p)
     \<and> tryTeachers args st d (periodsOf (arg_requiresDouble args) p) (arg_teacherList args) = Some (tid, r)"
  by (induction slots) (auto split: if_splits option.splits)

lemma tryAssignSlot_cases:
  obtains (placed) d p tid chosen where
      "findPlacement args g st (candidateSlots (arg_dayCount args) (arg_periodCount args)
          (periodSpan (arg_requiresDouble args))) = Some (d, p, tid, chosen)"
      "tryAssignSlot args g st = (True, commitPlacement args g st d p tid chosen)"
  | (marked) d p where
      "(d, p) \<in> set (candidateSlots (arg_dayCount args) (arg_periodCount args) (periodSpan (arg_requiresDouble args)))"
      "slotsAreFree g d (periodsOf (arg_requiresDouble args) p)"
      "tryAssignSlot args g st = (False, markUnassigned args g st d p)"
  | (full) "tryAssignSlot args g st = (False, g, st)"
proof -
  let ?slots = "candidateSlots (arg_dayCount args) (arg_periodCount args) (periodSpan (arg_requiresDouble args))"
  show thesis
  proof (cases "findPlacement args g st ?slots")
    case (Some r)
    then show ?thesis using placed[of "fst r" "fst (snd r)" "fst (snd (snd r))" "snd (snd (snd r))"]
      by (simp add: tryAssignSlot_def Let_def split: prod.splits)
  next
    case None
    show ?thesis
    proof (cases "find (\<lambda>(d, p). slotsAreFree g d (periodsOf (arg_requiresDouble args) p)) ?slots")
      case N2: None
      then show ?thesis using full None by (simp add: tryAssignSlot_def Let_def)
    next
      case (Some dp)
      then have "dp \<in> set ?slots" "slotsAreFree g (fst dp) (periodsOf (arg_requiresDouble args) (snd dp))"
        by (auto dest: find_SomeD)
      then show ?thesis using marked[of "fst dp" "snd dp"] None Some
        by (simp add: tryAssignSlot_def Let_def split: prod.splits)
    qed
  qed
qed

lemma gridAt_commitPlacement:
  "gridAt (fst (commitPlacement args g st d p tid chosen)) d' p' =
     (if d < length g \<and> d' = d \<and> p' = p
      then Some (assignedEntry (nextRef st) (arg_subjectId args) tid chosen (arg_requiresDouble args))
      else if arg_requiresDouble args \<and> d < length g \<and> d' = d \<and> p' = p + 1
      then Some ((assignedEntry (nextRef st) (arg_subjectId args) tid chosen (arg_requiresDouble args))
                   \<lparr>ref := nextRef st + 1, headOfDouble := Some False\<rparr>)
      else gridAt g d' p')"
  by (simp add: commitPlacement_def Let_def gridAt_gridSet)

lemma length_commitPlacement [simp]: "length (fst (commitPlacement args g st d p tid chosen)) = length g"
  by (simp add: commitPlacement_def Let_def)

lemma sched_commitPlacement:
  "teacherSchedule (snd (commitPlacement args g st d p tid chosen))
     = occupy (teacherSchedule st) tid d (periodsOf (arg_requiresDouble args) p)"
  "resourceSchedule (snd (commitPlacement args g st d p tid chosen))
     = (case chosen of None \<Rightarrow> resourceSchedule st
        | Some r \<Rightarrow> occupy (resourceSchedule st) (resource_id r) d (periodsOf (arg_requiresDouble args) p))"
  "teacherLoads (snd (commitPlacement args g st d p tid chosen))
     = incTeacherLoad (teacherLoads st) tid (int (periodSpan (arg_requiresDouble args)))"
  by (simp_all add: commitPlacement_def Let_def)

lemma gridAt_markUnassigned:
  "gridAt (fst (markUnassigned args g st d p)) d' p' =
     (if d < length g \<and> d' = d \<and> p' = p
      then Some (unassignedMarker (nextRef st) (arg_subjectId args))
      else if arg_requiresDouble args \<and> d < length g \<and> d' = d \<and> p' = p + 1
      then Some ((unassignedMarker (nextRef st) (arg_subjectId args))\<lparr>ref := nextRef st + 1\<rparr>)
      else gridAt g d' p')"
  by (simp add: markUnassigned_def Let_def gridAt_gridSet)

lemma length_markUnassigned [simp]: "length (fst (markUnassigned args g st d p)) = length g"
  by (simp add: markUnassigned_def Let_def)

lemma sched_markUnassigned [simp]:
  "teacherSchedule (snd (markUnassigned args g st d p)) = teacherSchedule st"
  "resourceSchedule (snd (markUnassigned args g st d p)) = resourceSchedule st"
  "teacherLoads (snd (markUnassigned args g st d p)) = teacherLoads st"
  by (simp_all add: markUnassigned_def Let_def)

lemma length_tryAssignSlot [simp]: "length (fst (snd (tryAssignSlot args g st))) = length g"
  by (rule tryAssignSlot_cases[of args g st]) simp_all

lemma wfTT_assignStep: "wfTT (workingDays cfg) (fst ts) \<Longrightarrow> wfTT (workingDays cfg) (fst (assignStep cfg ts slot))"
proof (cases "req_classId slot \<in> fst ` set (fst ts)")
  case True
  assume w: "wfTT (workingDays cfg) (fst ts)"
  show ?thesis unfolding assignStep_def Let_def fst_conv
    by (rule wfTT_replaceGrid[OF w]) (simp add: wfTT_rows[OF w True])
next
  case False
  assume w: "wfTT (workingDays cfg) (fst ts)"
  then show ?thesis using False set_replaceGrid[of _ "fst ts" "req_classId slot"]
    by (fastforce simp: wfTT_def assignStep_def Let_def)
qed

lemma occupy_mem: "q \<in> occupy sched k d ps k' d' \<longleftrightarrow> q \<in> sched k' d' \<or> (k' = k \<and> d' = d \<and> q \<in> set ps)"
  by (auto simp: occupy_def)

lemma slotsAreFree_D: "slotsAreFree g d ps \<Longrightarrow> q \<in> set ps \<Longrightarrow> gridAt g d q = None"
  by (simp add: slotsAreFree_def list_all_iff)

lemma periodsOf_set: "set (periodsOf dbl p) = (if dbl then {p, p + 1} else {p})"
  by (simp add: periodsOf_def)

text \<open>The step on its cells, for a class that is in the timetable.\<close>

lemma assignStep_cases:
  assumes w: "wfTT (workingDays cfg) tt" and key: "req_classId slot \<in> fst ` set tt"
  obtains
    (placed) d p tid chosen where
      "d < workingDays cfg"
      "\<forall>q \<in> set (periodsOf (requiresDouble slot) p). cellAt tt (req_classId slot) d q = None"
      "teacherQualifies (argsFor cfg slot) st tid d (periodsOf (requiresDouble slot) p)"
      "case chosen of None \<Rightarrow> True
         | Some res \<Rightarrow> \<not> resourceOccupied (resourceSchedule st) (resource_id res) d (periodsOf (requiresDouble slot) p)"
      "\<forall>c' d' p'. cellAt (fst (assignStep cfg (tt, st) slot)) c' d' p' =
          (if c' = req_classId slot \<and> d' = d \<and> p' = p
           then Some (assignedEntry (nextRef st) (req_subjectId slot) tid chosen (requiresDouble slot))
           else if requiresDouble slot \<and> c' = req_classId slot \<and> d' = d \<and> p' = p + 1
           then Some ((assignedEntry (nextRef st) (req_subjectId slot) tid chosen (requiresDouble slot))
                        \<lparr>ref := nextRef st + 1, headOfDouble := Some False\<rparr>)
           else cellAt tt c' d' p')"
      "teacherSchedule (snd (assignStep cfg (tt, st) slot))
         = occupy (teacherSchedule st) tid d (periodsOf (requiresDouble slot) p)"
      "resourceSchedule (snd (assignStep cfg (tt, st) slot))
         = (case chosen of None \<Rightarrow> resourceSchedule st
            | Some r \<Rightarrow> occupy (resourceSchedule st) (resource_id r) d (periodsOf (requiresDouble slot) p))"
      "teacherLoads (snd (assignStep cfg (tt, st) slot))
         = incTeacherLoad (teacherLoads st) tid (int (periodSpan (requiresDouble slot)))"
  | (marked) d p where
      "d < workingDays cfg"
      "\<forall>q \<in> set (periodsOf (requiresDouble slot) p). cellAt tt (req_classId slot) d q = None"
      "\<forall>c' d' p'. cellAt (fst (assignStep cfg (tt, st) slot)) c' d' p' =
          (if c' = req_classId slot \<and> d' = d \<and> p' = p
           then Some (unassignedMarker (nextRef st) (req_subjectId slot))
           else if requiresDouble slot \<and> c' = req_classId slot \<and> d' = d \<and> p' = p + 1
           then Some ((unassignedMarker (nextRef st) (req_subjectId slot))\<lparr>ref := nextRef st + 1\<rparr>)
           else cellAt tt c' d' p')"
      "teacherSchedule (snd (assignStep cfg (tt, st) slot)) = teacherSchedule st"
      "resourceSchedule (snd (assignStep cfg (tt, st) slot)) = resourceSchedule st"
      "teacherLoads (snd (assignStep cfg (tt, st) slot)) = teacherLoads st"
  | (full) "assignStep cfg (tt, st) slot = (tt, st)"
proof -
  let ?args = "argsFor cfg slot"
  let ?c = "req_classId slot"
  let ?g = "gridOf tt ?c"
  have len: "length ?g = workingDays cfg" by (rule wfTT_rows[OF w key])
  have a: "arg_requiresDouble ?args = requiresDouble slot" "arg_dayCount ?args = workingDays cfg"
      "arg_subjectId ?args = req_subjectId slot"
    by (simp_all add: argsFor_def)
  show thesis
  proof (cases rule: tryAssignSlot_cases[of ?args ?g st])
    case (placed d p tid chosen)
    note fp = findPlacement_SomeD[OF placed(1)]
    have d: "d < workingDays cfg" using fp by (simp add: candidateSlots_mem a)
    have free: "\<forall>q \<in> set (periodsOf (requiresDouble slot) p). cellAt tt ?c d q = None"
      using fp slotsAreFree_D[of ?g d _ ] by (auto simp: a cellAt_def)
    note tt = tryTeachers_SomeD[OF fp[THEN conjunct2, THEN conjunct2]]
    show ?thesis
      apply (rule that(1)[of d p tid chosen])
      subgoal by (rule d)
      subgoal by (rule free)
      subgoal using tt by (simp add: a)
      subgoal using tt by (auto simp: a split: option.splits)
      subgoal by (simp add: assignStep_def Let_def placed(2) cellAt_replaceGrid key gridAt_commitPlacement a len d)
                 (simp add: cellAt_def)
      subgoal by (simp add: assignStep_def Let_def placed(2) sched_commitPlacement a)
      subgoal by (simp add: assignStep_def Let_def placed(2) sched_commitPlacement a split: option.splits)
      subgoal by (simp add: assignStep_def Let_def placed(2) sched_commitPlacement a)
      done
  next
    case (marked d p)
    have d: "d < workingDays cfg" using marked(1) by (simp add: candidateSlots_mem a)
    have free: "\<forall>q \<in> set (periodsOf (requiresDouble slot) p). cellAt tt ?c d q = None"
      using marked(2) slotsAreFree_D[of ?g d _ ] by (auto simp: a cellAt_def)
    show ?thesis
      apply (rule that(2)[of d p])
      subgoal by (rule d)
      subgoal by (rule free)
      subgoal by (simp add: assignStep_def Let_def marked(3) cellAt_replaceGrid key gridAt_markUnassigned a len d)
                 (simp add: cellAt_def)
      subgoal by (simp add: assignStep_def Let_def marked(3))
      subgoal by (simp add: assignStep_def Let_def marked(3))
      subgoal by (simp add: assignStep_def Let_def marked(3))
      done
  next
    case full
    show ?thesis
      by (rule that(3)) (use w in \<open>simp add: assignStep_def Let_def full replaceGrid_same wfTT_def\<close>)
  qed
qed

lemma teacherQualifies_free:
  "teacherQualifies args st tid d ps \<Longrightarrow> q \<in> set ps \<Longrightarrow> q \<notin> teacherSchedule st tid d"
  by (auto simp: teacherQualifies_def teacherFreeSchedule_def list_all_iff split: option.splits)

lemma teacherQualifies_load:
  "teacherQualifies args st tid d ps \<Longrightarrow>
     teacherLoads st tid + int (periodSpan (arg_requiresDouble args)) \<le> maxLoadOf args tid"
  by (auto simp: teacherQualifies_def totalTeacherLoad_def split: option.splits)

lemma resourceOccupied_free:
  "\<not> resourceOccupied sched r d ps \<Longrightarrow> q \<in> set ps \<Longrightarrow> q \<notin> sched r d"
  by (auto simp: resourceOccupied_def list_ex_iff)

lemma occupancy_step:
  assumes w: "wfTT (workingDays cfg) tt" and key: "req_classId slot \<in> fst ` set tt"
      and occ: "occupancyOK tt st" and ndb: "noDoubleBooking tt"
  shows "occupancyOK (fst (assignStep cfg (tt, st) slot)) (snd (assignStep cfg (tt, st) slot))
         \<and> noDoubleBooking (fst (assignStep cfg (tt, st) slot))"
  using w key
proof (cases rule: assignStep_cases[where st = st])
  case (placed d p tid chosen)
  let ?tt' = "fst (assignStep cfg (tt, st) slot)" and ?st' = "snd (assignStep cfg (tt, st) slot)"
  let ?c = "req_classId slot" and ?ps = "periodsOf (requiresDouble slot) p"
  have new_or_old: "cellAt tt c' d' p' = Some e
        \<or> (c' = ?c \<and> d' = d \<and> p' \<in> set ?ps \<and> teacherId e = Some tid
            \<and> resourceId e = map_option resource_id chosen)"
    if "cellAt ?tt' c' d' p' = Some e" for c' d' p' e
    using that placed(5)[rule_format, of c' d' p']
    by (auto simp: periodsOf_set assignedEntry_def split: if_splits)
  have tfree: "q \<notin> teacherSchedule st tid d" if "q \<in> set ?ps" for q
    using teacherQualifies_free[OF placed(3) that] .
  have rfree: "q \<notin> resourceSchedule st (resource_id res) d" if "q \<in> set ?ps" "chosen = Some res" for q res
    using placed(4) that resourceOccupied_free by (auto split: option.splits)
  have tsub: "q \<in> teacherSchedule st t d' \<Longrightarrow> q \<in> teacherSchedule ?st' t d'" for q t d'
    by (simp add: placed(6) occupy_mem)
  have rsub: "q \<in> resourceSchedule st r d' \<Longrightarrow> q \<in> resourceSchedule ?st' r d'" for q r d'
    by (simp add: placed(7) occupy_mem split: option.splits)
  have occ': "occupancyOK ?tt' ?st'"
    unfolding occupancyOK_def
  proof (intro allI impI conjI)
    fix c' d' p' e t assume c: "cellAt ?tt' c' d' p' = Some e" and t: "teacherId e = Some t"
    from new_or_old[OF c] show "p' \<in> teacherSchedule ?st' t d'"
    proof
      assume "cellAt tt c' d' p' = Some e"
      with occ t show ?thesis by (auto simp: occupancyOK_def intro: tsub)
    next
      assume "c' = ?c \<and> d' = d \<and> p' \<in> set ?ps \<and> teacherId e = Some tid
            \<and> resourceId e = map_option resource_id chosen"
      with t show ?thesis by (simp add: placed(6) occupy_mem)
    qed
  next
    fix c' d' p' e r assume c: "cellAt ?tt' c' d' p' = Some e" and r: "resourceId e = Some r"
    from new_or_old[OF c] show "p' \<in> resourceSchedule ?st' r d'"
    proof
      assume "cellAt tt c' d' p' = Some e"
      with occ r show ?thesis by (auto simp: occupancyOK_def intro: rsub)
    next
      assume "c' = ?c \<and> d' = d \<and> p' \<in> set ?ps \<and> teacherId e = Some tid
            \<and> resourceId e = map_option resource_id chosen"
      with r show ?thesis by (auto simp: placed(7) occupy_mem split: option.splits)
    qed
  qed
  have clash_free: "(teacherId e1 \<noteq> None \<longrightarrow> teacherId e1 \<noteq> teacherId e2)
        \<and> (resourceId e1 \<noteq> None \<longrightarrow> resourceId e1 \<noteq> resourceId e2)"
    if new: "p' \<in> set ?ps" "teacherId e1 = Some tid" "resourceId e1 = map_option resource_id chosen"
      and old: "cellAt tt c2 d p' = Some e2" for p' e1 e2 c2
  proof -
    have "teacherId e2 \<noteq> Some tid"
      using occ old tfree[OF new(1)] by (auto simp: occupancyOK_def)
    moreover have "resourceId e2 \<noteq> Some (resource_id res)" if "chosen = Some res" for res
      using occ old rfree[OF new(1) that] by (auto simp: occupancyOK_def)
    ultimately show ?thesis using new by (cases chosen) auto
  qed
  have "noDoubleBooking ?tt'"
    unfolding noDoubleBooking_def
  proof (intro allI impI)
    fix c1 c2 d' p' e1 e2
    assume ne: "c1 \<noteq> c2" and c1: "cellAt ?tt' c1 d' p' = Some e1" and c2: "cellAt ?tt' c2 d' p' = Some e2"
    from new_or_old[OF c1] new_or_old[OF c2] ne
    consider (oo) "cellAt tt c1 d' p' = Some e1" "cellAt tt c2 d' p' = Some e2"
      | (no) "d' = d" "p' \<in> set ?ps" "teacherId e1 = Some tid" "resourceId e1 = map_option resource_id chosen"
             "cellAt tt c2 d p' = Some e2"
      | (on) "d' = d" "p' \<in> set ?ps" "teacherId e2 = Some tid" "resourceId e2 = map_option resource_id chosen"
             "cellAt tt c1 d p' = Some e1"
      by auto
    then show "(teacherId e1 \<noteq> None \<longrightarrow> teacherId e1 \<noteq> teacherId e2)
        \<and> (resourceId e1 \<noteq> None \<longrightarrow> resourceId e1 \<noteq> resourceId e2)"
    proof cases
      case oo
      with ndb ne show ?thesis unfolding noDoubleBooking_def by blast
    next
      case no
      then show ?thesis using clash_free by blast
    next
      case on
      from clash_free[OF on(2,3,4,5)] show ?thesis by auto
    qed
  qed
  with occ' show ?thesis by simp
next
  case (marked d p)
  let ?tt' = "fst (assignStep cfg (tt, st) slot)" and ?st' = "snd (assignStep cfg (tt, st) slot)"
  have new_or_old: "cellAt tt c' d' p' = Some e \<or> (teacherId e = None \<and> resourceId e = None)"
    if "cellAt ?tt' c' d' p' = Some e" for c' d' p' e
    using that marked(3)[rule_format, of c' d' p']
    by (auto simp: unassignedMarker_def split: if_splits)
  have "occupancyOK ?tt' ?st'"
    unfolding occupancyOK_def
  proof (intro allI impI conjI)
    fix c' d' p' e t assume c: "cellAt ?tt' c' d' p' = Some e" and t: "teacherId e = Some t"
    from new_or_old[OF c] t have "cellAt tt c' d' p' = Some e" by auto
    with occ t show "p' \<in> teacherSchedule ?st' t d'" by (auto simp: occupancyOK_def marked(4))
  next
    fix c' d' p' e r assume c: "cellAt ?tt' c' d' p' = Some e" and r: "resourceId e = Some r"
    from new_or_old[OF c] r have "cellAt tt c' d' p' = Some e" by auto
    with occ r show "p' \<in> resourceSchedule ?st' r d'" by (auto simp: occupancyOK_def marked(5))
  qed
  moreover have "noDoubleBooking ?tt'"
    unfolding noDoubleBooking_def
  proof (intro allI impI)
    fix c1 c2 d' p' e1 e2
    assume ne: "c1 \<noteq> c2" and c1: "cellAt ?tt' c1 d' p' = Some e1" and c2: "cellAt ?tt' c2 d' p' = Some e2"
    show "(teacherId e1 \<noteq> None \<longrightarrow> teacherId e1 \<noteq> teacherId e2)
        \<and> (resourceId e1 \<noteq> None \<longrightarrow> resourceId e1 \<noteq> resourceId e2)"
    proof (cases "cellAt tt c1 d' p' = Some e1 \<and> cellAt tt c2 d' p' = Some e2")
      case True
      with ndb ne show ?thesis unfolding noDoubleBooking_def by blast
    next
      case False
      with new_or_old[OF c1] new_or_old[OF c2]
      have "(teacherId e1 = None \<and> resourceId e1 = None) \<or> (teacherId e2 = None \<and> resourceId e2 = None)"
        by blast
      then show ?thesis by auto
    qed
  qed
  ultimately show ?thesis by simp
next
  case full
  then show ?thesis using occ ndb by simp
qed

lemma maxLoadOf_argsFor [simp]: "maxLoadOf (argsFor cfg slot) t = loadCap cfg t"
  by (simp add: maxLoadOf_def argsFor_def loadCap_def)

lemma arg_requiresDouble_argsFor [simp]: "arg_requiresDouble (argsFor cfg slot) = requiresDouble slot"
  by (simp add: argsFor_def)

lemma finite_allPositions: "finite (allPositions tt)"
  by (simp add: allPositions_def)

lemma cellAt_Some_allPositions: "cellAt tt c d p = Some e \<Longrightarrow> (c, d, p) \<in> allPositions tt"
proof -
  assume a: "cellAt tt c d p = Some e"
  from cellAt_SomeD[OF a] have k: "c \<in> fst ` set tt" and d: "d < length (gridOf tt c)"
    and p: "p < length (gridOf tt c ! d)" by auto
  from key_gridOf[OF k] d p show ?thesis
    unfolding allPositions_def by (intro UN_I[of "(c, gridOf tt c)"]) auto
qed

lemma teacherPositions_subset: "teacherPositions tt t \<subseteq> allPositions tt"
  by (auto simp: teacherPositions_def cellHasTeacher_def split: option.splits
           intro: cellAt_Some_allPositions)

lemma finite_teacherPositions [simp]: "finite (teacherPositions tt t)"
  by (rule finite_subset[OF teacherPositions_subset finite_allPositions])

lemma card_line: "card ((\<lambda>q. (c, d, q)) ` set ps) \<le> length ps"
  by (rule order_trans[OF card_image_le card_length]) simp

lemma length_periodsOf [simp]: "length (periodsOf dbl p) = periodSpan dbl"
  by (simp add: periodsOf_def periodSpan_def)

lemma loads_step:
  assumes w: "wfTT (workingDays cfg) tt" and key: "req_classId slot \<in> fst ` set tt"
      and lo: "loadsOK cfg tt st"
  shows "loadsOK cfg (fst (assignStep cfg (tt, st) slot)) (snd (assignStep cfg (tt, st) slot))"
  using w key
proof (cases rule: assignStep_cases[where st = st])
  case (placed d p tid chosen)
  let ?tt' = "fst (assignStep cfg (tt, st) slot)" and ?st' = "snd (assignStep cfg (tt, st) slot)"
  let ?c = "req_classId slot" and ?ps = "periodsOf (requiresDouble slot) p"
  let ?span = "int (periodSpan (requiresDouble slot))"
  have sub: "teacherPositions ?tt' t \<subseteq> teacherPositions tt t \<union> (if t = tid then (\<lambda>q. (?c, d, q)) ` set ?ps else {})" for t
  proof
    fix x assume x: "x \<in> teacherPositions ?tt' t"
    obtain c' d' p' where xe: "x = (c', d', p')" by (cases x) auto
    from x xe placed(5)[rule_format, of c' d' p']
    show "x \<in> teacherPositions tt t \<union> (if t = tid then (\<lambda>q. (?c, d, q)) ` set ?ps else {})"
      by (auto simp: teacherPositions_def cellHasTeacher_def periodsOf_set assignedEntry_def
               split: if_splits)
  qed
  have cardle: "int (card (teacherPositions ?tt' t)) \<le> int (card (teacherPositions tt t)) + (if t = tid then ?span else 0)" for t
  proof -
    have "card (teacherPositions ?tt' t)
            \<le> card (teacherPositions tt t \<union> (if t = tid then (\<lambda>q. (?c, d, q)) ` set ?ps else {}))"
      by (rule card_mono[OF _ sub]) simp
    also have "\<dots> \<le> card (teacherPositions tt t) + card (if t = tid then (\<lambda>q. (?c, d, q)) ` set ?ps else {})"
      by (rule card_Un_le)
    also have "\<dots> \<le> card (teacherPositions tt t) + (if t = tid then periodSpan (requiresDouble slot) else 0)"
      using card_line[of ?c d ?ps] by simp
    finally show ?thesis by (simp split: if_splits)
  qed
  have cap: "teacherLoads st tid + ?span \<le> loadCap cfg tid"
    using teacherQualifies_load[OF placed(3)] by simp
  show ?thesis
    unfolding loadsOK_def
  proof (intro allI conjI)
    fix t
    note lt = lo[unfolded loadsOK_def, rule_format, of t]
    show "int (card (teacherPositions ?tt' t)) \<le> teacherLoads ?st' t"
      using cardle[of t] lt by (cases "t = tid") (simp_all add: placed(8) incTeacherLoad_def)
    show "teacherLoads ?st' t \<le> max 0 (loadCap cfg t)"
      using cap lt by (cases "t = tid") (simp_all add: placed(8) incTeacherLoad_def)
  qed
next
  case (marked d p)
  let ?tt' = "fst (assignStep cfg (tt, st) slot)"
  have sub: "teacherPositions ?tt' t \<subseteq> teacherPositions tt t" for t
  proof
    fix x assume x: "x \<in> teacherPositions ?tt' t"
    obtain c' d' p' where xe: "x = (c', d', p')" by (cases x) auto
    from x xe marked(3)[rule_format, of c' d' p']
    show "x \<in> teacherPositions tt t"
      by (auto simp: teacherPositions_def cellHasTeacher_def unassignedMarker_def split: if_splits)
  qed
  have cm: "card (teacherPositions ?tt' t) \<le> card (teacherPositions tt t)" for t
    by (rule card_mono[OF _ sub]) simp
  show ?thesis
    unfolding loadsOK_def
  proof (intro allI)
    fix t
    show "int (card (teacherPositions ?tt' t)) \<le> teacherLoads (snd (assignStep cfg (tt, st) slot)) t
          \<and> teacherLoads (snd (assignStep cfg (tt, st) slot)) t \<le> max 0 (loadCap cfg t)"
      using cm[of t] lo[unfolded loadsOK_def, rule_format, of t] by (simp add: marked(6))
  qed
next
  case full
  then show ?thesis using lo by simp
qed

lemma cellOK_mono:
  assumes "cellOK tt c d p e"
      and "\<And>e'. double e \<Longrightarrow> headOfDouble e = Some True \<Longrightarrow> tailOf e e' \<Longrightarrow>
             cellAt tt c d (p + 1) = Some e' \<Longrightarrow> cellAt tt' c d (p + 1) = Some e'"
  shows "cellOK tt' c d p e"
  using assms unfolding cellOK_def by (cases "double e") auto

lemma pairs_step:
  assumes w: "wfTT (workingDays cfg) tt" and key: "req_classId slot \<in> fst ` set tt"
      and po: "pairsOK tt"
  shows "pairsOK (fst (assignStep cfg (tt, st) slot))"
  using w key
proof (cases rule: assignStep_cases[where st = st])
  case (placed d p tid chosen)
  let ?tt' = "fst (assignStep cfg (tt, st) slot)"
  let ?c = "req_classId slot" and ?ps = "periodsOf (requiresDouble slot) p"
  let ?E = "assignedEntry (nextRef st) (req_subjectId slot) tid chosen (requiresDouble slot)"
  let ?T = "?E\<lparr>ref := nextRef st + 1, headOfDouble := Some False\<rparr>"
  have keep: "cellAt ?tt' c' d' p' = Some e" if "cellAt tt c' d' p' = Some e" for c' d' p' e
  proof -
    have "\<not> (c' = ?c \<and> d' = d \<and> p' \<in> set ?ps)" using that placed(2) by auto
    then have n1: "\<not> (c' = ?c \<and> d' = d \<and> p' = p)"
      and n2: "\<not> (requiresDouble slot \<and> c' = ?c \<and> d' = d \<and> p' = p + 1)"
      by (auto simp: periodsOf_set split: if_splits)
    have "cellAt ?tt' c' d' p' = cellAt tt c' d' p'"
      using placed(5)[rule_format, of c' d' p'] by (simp only: if_not_P[OF n1] if_not_P[OF n2])
    then show ?thesis using that by simp
  qed
  show ?thesis
    unfolding pairsOK_def
  proof (intro allI impI)
    fix c' d' p' e assume c: "cellAt ?tt' c' d' p' = Some e" and u: "\<not> unassigned e"
    have "(c' = ?c \<and> d' = d \<and> p' = p \<and> e = ?E) \<or> (requiresDouble slot \<and> e = ?T)
          \<or> cellAt tt c' d' p' = Some e"
      using c placed(5)[rule_format, of c' d' p'] by (simp split: if_splits)
    then consider (head) "c' = ?c" "d' = d" "p' = p" "e = ?E"
      | (tail) "requiresDouble slot" "e = ?T"
      | (old) "cellAt tt c' d' p' = Some e"
      by blast
    then show "cellOK ?tt' c' d' p' e"
    proof cases
      case head
      have t: "cellAt ?tt' ?c d (p + 1) = Some ?T" if "requiresDouble slot"
        using that placed(5)[rule_format, of ?c d "p + 1"] by simp
      have "tailOf ?E ?T" if "requiresDouble slot"
        using that by (simp add: tailOf_def assignedEntry_def)
      with t show ?thesis unfolding cellOK_def head by (auto simp: assignedEntry_def)
    next
      case tail
      then show ?thesis by (simp add: cellOK_def assignedEntry_def)
    next
      case old
      from po[unfolded pairsOK_def, rule_format, OF old u] show ?thesis
        by (rule cellOK_mono) (rule keep)
    qed
  qed
next
  case (marked d p)
  let ?tt' = "fst (assignStep cfg (tt, st) slot)"
  let ?c = "req_classId slot" and ?ps = "periodsOf (requiresDouble slot) p"
  have keep: "cellAt ?tt' c' d' p' = Some e" if "cellAt tt c' d' p' = Some e" for c' d' p' e
  proof -
    have "\<not> (c' = ?c \<and> d' = d \<and> p' \<in> set ?ps)" using that marked(2) by auto
    then have n1: "\<not> (c' = ?c \<and> d' = d \<and> p' = p)"
      and n2: "\<not> (requiresDouble slot \<and> c' = ?c \<and> d' = d \<and> p' = p + 1)"
      by (auto simp: periodsOf_set split: if_splits)
    have "cellAt ?tt' c' d' p' = cellAt tt c' d' p'"
      using marked(3)[rule_format, of c' d' p'] by (simp only: if_not_P[OF n1] if_not_P[OF n2])
    then show ?thesis using that by simp
  qed
  show ?thesis
    unfolding pairsOK_def
  proof (intro allI impI)
    fix c' d' p' e assume c: "cellAt ?tt' c' d' p' = Some e" and u: "\<not> unassigned e"
    have old: "cellAt tt c' d' p' = Some e"
      using c u marked(3)[rule_format, of c' d' p'] by (auto simp: unassignedMarker_def split: if_splits)
    from po[unfolded pairsOK_def, rule_format, OF old u] show "cellOK ?tt' c' d' p' e"
      by (rule cellOK_mono) (rule keep)
  qed
next
  case full
  then show ?thesis using po by simp
qed

lemma greedyInv_step:
  assumes "greedyInv cfg ts" and "req_classId slot \<in> fst ` set (fst ts)"
  shows "greedyInv cfg (assignStep cfg ts slot)"
proof -
  obtain tt st where ts: "ts = (tt, st)" by (cases ts)
  from assms show ?thesis
    unfolding greedyInv_def ts fst_conv snd_conv
    using wfTT_assignStep[of cfg "(tt, st)" slot] occupancy_step[of cfg tt slot st]
      pairs_step[of cfg tt slot st] loads_step[of cfg tt slot st]
    by simp
qed

lemma keys_assignStep [simp]: "fst ` set (fst (assignStep cfg ts slot)) = fst ` set (fst ts)"
  by (simp add: assignStep_def Let_def)

lemma greedyInv_foldl:
  "greedyInv cfg ts \<Longrightarrow> (\<forall>r \<in> set rs. req_classId r \<in> fst ` set (fst ts)) \<Longrightarrow>
   greedyInv cfg (foldl (assignStep cfg) ts rs)"
proof (induction rs arbitrary: ts)
  case Nil
  then show ?case by simp
next
  case (Cons r rs)
  have "greedyInv cfg (assignStep cfg ts r)"
    using Cons.prems by (intro greedyInv_step) auto
  moreover have "\<forall>r' \<in> set rs. req_classId r' \<in> fst ` set (fst (assignStep cfg ts r))"
    using Cons.prems by simp
  ultimately show ?case using Cons.IH by simp
qed

subsection \<open>The empty timetable\<close>

lemma set_obj_set: "set (obj_set tt k v) \<subseteq> insert (k, v) (set tt)"
proof (induction tt)
  case (Cons kv tt)
  then show ?case by (cases kv) (auto split: if_splits)
qed simp

lemma emptyTimetable_grids:
  "kv \<in> set (emptyTimetable cfg) \<Longrightarrow> snd kv = makeEmptyGrid (workingDays cfg) (periodsPerDay cfg)"
proof -
  have "\<forall>kv \<in> set (foldl (\<lambda>tt c. obj_set tt (class_id c) g) tt cs). snd kv = g"
    if "\<forall>kv \<in> set tt. snd kv = g" for tt :: timetable and cs g
    using that
  proof (induction cs arbitrary: tt)
    case (Cons c cs)
    have "\<forall>kv \<in> set (obj_set tt (class_id c) g). snd kv = g"
      using Cons.prems set_obj_set[of tt "class_id c" g] by auto
    then show ?case using Cons.IH by simp
  qed simp
  from this[of "[]" "makeEmptyGrid (workingDays cfg) (periodsPerDay cfg)" "classes cfg"]
  show "kv \<in> set (emptyTimetable cfg) \<Longrightarrow> ?thesis"
    by (simp add: emptyTimetable_def)
qed

lemma keys_foldl_obj_set:
  "fst ` set (foldl (\<lambda>tt c. obj_set tt (f c) (g c)) tt cs) = fst ` set tt \<union> f ` set cs"
  by (induction cs arbitrary: tt) (auto simp: keys_obj_set)

lemma keys_emptyTimetable: "fst ` set (emptyTimetable cfg) = class_id ` set (classes cfg)"
  by (simp add: emptyTimetable_def keys_foldl_obj_set)

lemma gridAt_makeEmptyGrid [simp]: "gridAt (makeEmptyGrid days periods) d p = None"
  by (auto simp: gridAt_def makeEmptyGrid_def)

lemma cellAt_emptyTimetable [simp]: "cellAt (emptyTimetable cfg) c d p = None"
proof (cases "c \<in> fst ` set (emptyTimetable cfg)")
  case True
  from emptyTimetable_grids[OF key_gridOf[OF True]] show ?thesis by (simp add: cellAt_def)
next
  case False
  then show ?thesis by (simp add: cellAt_def gridOf_not_key gridAt_def)
qed

lemma wfTT_emptyTimetable: "wfTT (workingDays cfg) (emptyTimetable cfg)"
  using emptyTimetable_grids[of _ cfg]
  by (auto simp: wfTT_def distinct_emptyTimetable makeEmptyGrid_def)

lemma greedyInv_initial: "greedyInv cfg (emptyTimetable cfg, initialScheduler)"
proof -
  have "teacherPositions (emptyTimetable cfg) t = {}" for t
    by (auto simp: teacherPositions_def cellHasTeacher_def)
  then show ?thesis
    by (simp add: greedyInv_def wfTT_emptyTimetable occupancyOK_def noDoubleBooking_def pairsOK_def
        loadsOK_def initialScheduler_def)
qed

subsection \<open>The requirements\<close>

lemma set_insertRequired [simp]: "set (insertRequired x xs) = insert x (set xs)"
  by (induction xs) auto

lemma set_sortRequired [simp]: "set (sortRequired xs) = set xs"
  by (induction xs) (simp_all add: sortRequired_def)

lemma flattenRequired_class:
  "r \<in> set (flattenRequired cfg) \<Longrightarrow> req_classId r \<in> class_id ` set (classes cfg)"
  by (auto simp: flattenRequired_def requirementsFor_def Let_def)

lemma greedyInv_greedyAssign: "greedyInv cfg (greedyAssign cfg)"
  unfolding greedyAssign_def
  by (rule greedyInv_foldl[OF greedyInv_initial])
     (auto simp: keys_emptyTimetable dest: flattenRequired_class)

section \<open>Invariants of the optimizer\<close>

lemma set_object_entries [simp]: "set (object_entries obj) = set obj"
  by (auto simp: object_entries_def)

lemma pool_item:
  assumes d: "distinct (map fst tt)" and m: "a \<in> set (collectAssignedSlots tt cfg)"
  shows "classId a \<in> fst ` set tt" "day a < workingDays cfg" "period a < periodsPerDay cfg"
        "cellAt tt (classId a) (day a) (period a) = Some (item_entry a)"
        "\<not> unassigned (item_entry a)"
        "\<not> (double (item_entry a) \<and> headOfDouble (item_entry a) = Some False)"
proof -
  from m obtain c g dd p where cg: "(c, g) \<in> set tt" and dd: "dd < workingDays cfg"
      and p: "p < periodsPerDay cfg" and pc: "poolCell c g dd p = Some a"
    by (auto simp: collectAssignedSlots_def List.map_filter_def)
  from pc obtain e where e: "gridAt g dd p = Some e" "\<not> unassigned e"
      "\<not> (double e \<and> headOfDouble e = Some False)"
      "a = \<lparr>classId = c, day = dd, period = p, item_entry = e\<rparr>"
    by (auto simp: poolCell_def split: option.splits if_splits)
  have g: "gridOf tt c = g" by (rule gridOf_mem[OF d cg])
  show "classId a \<in> fst ` set tt" using cg e(4) by force
  show "day a < workingDays cfg" "period a < periodsPerDay cfg" using dd p e(4) by simp_all
  show "cellAt tt (classId a) (day a) (period a) = Some (item_entry a)"
    using e g by (simp add: cellAt_def)
  show "\<not> unassigned (item_entry a)" "\<not> (double (item_entry a) \<and> headOfDouble (item_entry a) = Some False)"
    using e by simp_all
qed

lemma wfTT_moveEntry: "wfTT days (fst tn) \<Longrightarrow> wfTT days (fst (moveEntry tn sc s dc d))"
  by (simp add: moveEntry_def Let_def wfTT_cellSet split: option.splits)

lemma wfTT_applySwap: "wfTT days tt \<Longrightarrow> wfTT days (fst (applySwap a b (tt, n)))"
  by (simp add: applySwap_def wfTT_moveEntry)

lemma keys_moveEntry [simp]: "fst ` set (fst (moveEntry tn sc s dc d)) = fst ` set (fst tn)"
  using map_fst_moveEntry[of tn sc s dc d] by (metis list.set_map)

lemma snd_moveEntry:
  "cellAt (fst tn) sc (day s) (period s) = Some e \<Longrightarrow>
   snd (moveEntry tn sc s dc d) = snd tn + (if double e then 2 else 1)"
  by (simp add: moveEntry_def Let_def)

lemma cellAt_moveEntry:
  assumes w: "wfTT days tt" and ks: "sc \<in> fst ` set tt" and kd: "dc \<in> fst ` set tt"
      and ds: "day s < days" and dd: "day d < days"
      and e: "cellAt tt sc (day s) (period s) = Some e"
  shows "cellAt (fst (moveEntry (tt, n) sc s dc d)) c' d' p' =
     (if double e \<and> c' = dc \<and> d' = day d \<and> p' = period d + 1
      then Some (e\<lparr>ref := n + 1, headOfDouble := Some False\<rparr>)
      else if c' = dc \<and> d' = day d \<and> p' = period d
      then Some (e\<lparr>ref := n, headOfDouble := (if double e then Some True else None)\<rparr>)
      else if double e \<and> c' = sc \<and> d' = day s \<and> p' = period s + 1 then None
      else if c' = sc \<and> d' = day s \<and> p' = period s then None
      else cellAt tt c' d' p')"
proof -
  define t1 where "t1 = cellSet tt sc (day s) (period s) None"
  define t2 where "t2 = (if double e then cellSet t1 sc (day s) (period s + 1) None else t1)"
  define E where "E = e\<lparr>ref := n, headOfDouble := (if double e then Some True else None)\<rparr>"
  define T where "T = e\<lparr>ref := n + 1, headOfDouble := Some False\<rparr>"
  define t3 where "t3 = cellSet t2 dc (day d) (period d) (Some E)"
  define t4 where "t4 = (if double e then cellSet t3 dc (day d) (period d + 1) (Some T) else t3)"
  have r: "fst (moveEntry (tt, n) sc s dc d) = t4"
    using e by (simp add: moveEntry_def Let_def t1_def t2_def t3_def t4_def E_def T_def)
  have rs: "day s < length (gridOf tt sc)" and rd: "day d < length (gridOf tt dc)"
    using wfTT_rows[OF w ks] wfTT_rows[OF w kd] ds dd by simp_all
  have k1: "fst ` set t1 = fst ` set tt" and l1: "\<And>c. length (gridOf t1 c) = length (gridOf tt c)"
    by (simp_all add: t1_def)
  have k2: "fst ` set t2 = fst ` set tt" and l2: "\<And>c. length (gridOf t2 c) = length (gridOf tt c)"
    by (simp_all add: t2_def k1 l1)
  have k3: "fst ` set t3 = fst ` set tt" and l3: "\<And>c. length (gridOf t3 c) = length (gridOf tt c)"
    by (simp_all add: t3_def k2 l2)
  have c1: "cellAt t1 c' d' p' = (if c' = sc \<and> d' = day s \<and> p' = period s then None else cellAt tt c' d' p')"
    unfolding t1_def by (rule cellAt_cellSet[OF ks rs])
  have c2: "cellAt t2 c' d' p' =
      (if double e \<and> c' = sc \<and> d' = day s \<and> p' = period s + 1 then None else cellAt t1 c' d' p')"
  proof (cases "double e")
    case True
    have "cellAt (cellSet t1 sc (day s) (period s + 1) None) c' d' p'
        = (if c' = sc \<and> d' = day s \<and> p' = period s + 1 then None else cellAt t1 c' d' p')"
      by (rule cellAt_cellSet) (simp_all add: k1 l1 ks rs)
    then show ?thesis using True by (simp add: t2_def)
  qed (simp add: t2_def)
  have c3: "cellAt t3 c' d' p' = (if c' = dc \<and> d' = day d \<and> p' = period d then Some E else cellAt t2 c' d' p')"
    unfolding t3_def by (rule cellAt_cellSet) (simp_all add: k2 l2 kd rd)
  have c4: "cellAt t4 c' d' p' =
      (if double e \<and> c' = dc \<and> d' = day d \<and> p' = period d + 1 then Some T else cellAt t3 c' d' p')"
  proof (cases "double e")
    case True
    have "cellAt (cellSet t3 dc (day d) (period d + 1) (Some T)) c' d' p'
        = (if c' = dc \<and> d' = day d \<and> p' = period d + 1 then Some T else cellAt t3 c' d' p')"
      by (rule cellAt_cellSet) (simp_all add: k3 l3 kd rd)
    then show ?thesis using True by (simp add: t4_def)
  qed (simp add: t4_def)
  show ?thesis
    unfolding r c4 c3 c2 c1 E_def T_def ..
qed

lemma cellAt_applySwap:
  assumes w: "wfTT days tt" and ka: "classId a \<in> fst ` set tt" and kb: "classId b \<in> fst ` set tt"
      and da: "day a < days" and db: "day b < days"
      and A: "cellAt tt (classId a) (day a) (period a) = Some A"
  shows "cellAt (fst (applySwap a b (tt, n))) c' d' p' =
     (if double A \<and> c' = classId a \<and> d' = day a \<and> p' = period a + 1
      then Some (A\<lparr>ref := n + (if double A then 2 else 1) + 1, headOfDouble := Some False\<rparr>)
      else if c' = classId a \<and> d' = day a \<and> p' = period a
      then Some (A\<lparr>ref := n + (if double A then 2 else 1),
                   headOfDouble := (if double A then Some True else None)\<rparr>)
      else if double A \<and> c' = classId b \<and> d' = day b \<and> p' = period b + 1 then None
      else if c' = classId b \<and> d' = day b \<and> p' = period b then None
      else cellAt tt c' d' p')"
proof -
  define m1 where "m1 = moveEntry (tt, n) (classId a) a (classId b) b"
  define A1 where "A1 = A\<lparr>ref := n, headOfDouble := (if double A then Some True else None)\<rparr>"
  have F1: "cellAt (fst m1) c d p =
     (if double A \<and> c = classId b \<and> d = day b \<and> p = period b + 1
      then Some (A\<lparr>ref := n + 1, headOfDouble := Some False\<rparr>)
      else if c = classId b \<and> d = day b \<and> p = period b then Some A1
      else if double A \<and> c = classId a \<and> d = day a \<and> p = period a + 1 then None
      else if c = classId a \<and> d = day a \<and> p = period a then None
      else cellAt tt c d p)" for c d p
    unfolding m1_def A1_def by (rule cellAt_moveEntry[OF w ka kb da db A])
  have s1: "snd m1 = n + (if double A then 2 else 1)"
    unfolding m1_def using snd_moveEntry[of "(tt, n)" "classId a" a A] A by simp
  have m1eq: "m1 = (fst m1, n + (if double A then 2 else 1))"
    using s1 by (cases m1) simp
  have w1: "wfTT days (fst m1)" unfolding m1_def using w by (simp add: wfTT_moveEntry)
  have k1: "classId a \<in> fst ` set (fst m1)" "classId b \<in> fst ` set (fst m1)"
    unfolding m1_def using ka kb by simp_all
  have B1: "cellAt (fst m1) (classId b) (day b) (period b) = Some A1"
    by (simp add: F1)
  have dA1: "double A1 = double A" by (simp add: A1_def)
  have F2: "cellAt (fst (moveEntry (fst m1, n + (if double A then 2 else 1)) (classId b) b (classId a) a)) c' d' p' =
     (if double A1 \<and> c' = classId a \<and> d' = day a \<and> p' = period a + 1
      then Some (A1\<lparr>ref := n + (if double A then 2 else 1) + 1, headOfDouble := Some False\<rparr>)
      else if c' = classId a \<and> d' = day a \<and> p' = period a
      then Some (A1\<lparr>ref := n + (if double A then 2 else 1),
                    headOfDouble := (if double A1 then Some True else None)\<rparr>)
      else if double A1 \<and> c' = classId b \<and> d' = day b \<and> p' = period b + 1 then None
      else if c' = classId b \<and> d' = day b \<and> p' = period b then None
      else cellAt (fst m1) c' d' p')"
    by (rule cellAt_moveEntry[OF w1 k1(2) k1(1) db da B1])
  have r: "applySwap a b (tt, n) = moveEntry (fst m1, n + (if double A then 2 else 1)) (classId b) b (classId a) a"
    unfolding applySwap_def m1_def[symmetric] using m1eq by simp
  define Pa1 where "Pa1 = (double A \<and> c' = classId a \<and> d' = day a \<and> p' = period a + 1)"
  define Pa where "Pa = (c' = classId a \<and> d' = day a \<and> p' = period a)"
  define Pb1 where "Pb1 = (double A \<and> c' = classId b \<and> d' = day b \<and> p' = period b + 1)"
  define Pb where "Pb = (c' = classId b \<and> d' = day b \<and> p' = period b)"
  have G1: "cellAt (fst m1) c' d' p' =
     (if Pb1 then Some (A\<lparr>ref := n + 1, headOfDouble := Some False\<rparr>)
      else if Pb then Some A1 else if Pa1 then None else if Pa then None else cellAt tt c' d' p')"
    unfolding Pa1_def Pa_def Pb1_def Pb_def by (rule F1)
  have G2: "cellAt (fst (applySwap a b (tt, n))) c' d' p' =
     (if Pa1 then Some (A1\<lparr>ref := n + (if double A then 2 else 1) + 1, headOfDouble := Some False\<rparr>)
      else if Pa then Some (A1\<lparr>ref := n + (if double A then 2 else 1),
                    headOfDouble := (if double A then Some True else None)\<rparr>)
      else if Pb1 then None else if Pb then None else cellAt (fst m1) c' d' p')"
    unfolding Pa1_def Pa_def Pb1_def Pb_def r using F2 unfolding dA1 .
  have "cellAt (fst (applySwap a b (tt, n))) c' d' p' =
     (if Pa1 then Some (A\<lparr>ref := n + (if double A then 2 else 1) + 1, headOfDouble := Some False\<rparr>)
      else if Pa then Some (A\<lparr>ref := n + (if double A then 2 else 1),
                    headOfDouble := (if double A then Some True else None)\<rparr>)
      else if Pb1 then None else if Pb then None else cellAt tt c' d' p')"
    unfolding G2 G1 by (cases Pa1; cases Pa; cases Pb1; cases Pb) (simp_all add: A1_def)
  then show ?thesis unfolding Pa1_def Pa_def Pb1_def Pb_def .
qed

lemma swap_effect:
  assumes w: "wfTT (workingDays cfg) tt" and po: "pairsOK tt"
      and ma: "a \<in> set (collectAssignedSlots tt cfg)" and mb: "b \<in> set (collectAssignedSlots tt cfg)"
  shows "\<forall>c d p e'. cellAt (fst (applySwap a b (tt, n))) c d p = Some e' \<longrightarrow>
           (\<exists>e. cellAt tt c d p = Some e \<and> teacherId e = teacherId e' \<and> resourceId e = resourceId e')"
    and "pairsOK (fst (applySwap a b (tt, n)))"
proof -
  let ?tt' = "fst (applySwap a b (tt, n))"
  have dk: "distinct (map fst tt)" using w by (simp add: wfTT_def)
  note ia = pool_item[OF dk ma] and ib = pool_item[OF dk mb]
  define A where "A = item_entry a"
  define B where "B = item_entry b"
  define k where "k = n + (if double A then 2 else 1)"
  have cA: "cellAt tt (classId a) (day a) (period a) = Some A" and uA: "\<not> unassigned A"
    and hA: "\<not> (double A \<and> headOfDouble A = Some False)"
    using ia by (simp_all add: A_def)
  have cB: "cellAt tt (classId b) (day b) (period b) = Some B"
    and hB: "\<not> (double B \<and> headOfDouble B = Some False)"
    using ib by (simp_all add: B_def)
  have okA: "cellOK tt (classId a) (day a) (period a) A"
    using po cA uA by (simp add: pairsOK_def)
  have norm: "(if double A then Some True else None) = headOfDouble A"
    using okA hA by (auto simp: cellOK_def split: if_splits)
  obtain T where T: "double A \<Longrightarrow> cellAt tt (classId a) (day a) (period a + 1) = Some T \<and> tailOf A T"
    using okA hA by (cases "double A") (auto simp: cellOK_def)
  have F: "cellAt ?tt' c d p =
     (if double A \<and> c = classId a \<and> d = day a \<and> p = period a + 1
      then Some (A\<lparr>ref := k + 1, headOfDouble := Some False\<rparr>)
      else if c = classId a \<and> d = day a \<and> p = period a
      then Some (A\<lparr>ref := k, headOfDouble := headOfDouble A\<rparr>)
      else if double A \<and> c = classId b \<and> d = day b \<and> p = period b + 1 then None
      else if c = classId b \<and> d = day b \<and> p = period b then None
      else cellAt tt c d p)" for c d p
    using cellAt_applySwap[OF w ia(1) ib(1) ia(2) ib(2) cA, of n c d p]
    unfolding norm k_def .
  show S: "\<forall>c d p e'. cellAt ?tt' c d p = Some e' \<longrightarrow>
           (\<exists>e. cellAt tt c d p = Some e \<and> teacherId e = teacherId e' \<and> resourceId e = resourceId e')"
  proof (intro allI impI)
    fix c d p e' assume c: "cellAt ?tt' c d p = Some e'"
    define Pa1 where "Pa1 = (double A \<and> c = classId a \<and> d = day a \<and> p = period a + 1)"
    define Pa where "Pa = (c = classId a \<and> d = day a \<and> p = period a)"
    define Pb1 where "Pb1 = (double A \<and> c = classId b \<and> d = day b \<and> p = period b + 1)"
    define Pb where "Pb = (c = classId b \<and> d = day b \<and> p = period b)"
    have G: "cellAt ?tt' c d p =
       (if Pa1 then Some (A\<lparr>ref := k + 1, headOfDouble := Some False\<rparr>)
        else if Pa then Some (A\<lparr>ref := k, headOfDouble := headOfDouble A\<rparr>)
        else if Pb1 then None else if Pb then None else cellAt tt c d p)"
      unfolding Pa1_def Pa_def Pb1_def Pb_def by (rule F)
    consider (tail) "Pa1" "e' = A\<lparr>ref := k + 1, headOfDouble := Some False\<rparr>"
      | (head) "Pa" "e' = A\<lparr>ref := k, headOfDouble := headOfDouble A\<rparr>"
      | (old) "cellAt tt c d p = Some e'"
      using c unfolding G by (cases Pa1; cases Pa; cases Pb1; cases Pb) simp_all
    then show "\<exists>e. cellAt tt c d p = Some e \<and> teacherId e = teacherId e' \<and> resourceId e = resourceId e'"
    proof cases
      case tail
      then have "cellAt tt c d p = Some T \<and> tailOf A T" using T by (simp add: Pa1_def)
      then show ?thesis using tail(2) by (simp add: tailOf_def)
    next
      case head
      then show ?thesis using cA by (simp add: Pa_def)
    next
      case old
      then show ?thesis by simp
    qed
  qed
  show "pairsOK ?tt'"
    unfolding pairsOK_def
  proof (intro allI impI)
    fix c d p e' assume c: "cellAt ?tt' c d p = Some e'" and u: "\<not> unassigned e'"
    define Pa1 where "Pa1 = (double A \<and> c = classId a \<and> d = day a \<and> p = period a + 1)"
    define Pa where "Pa = (c = classId a \<and> d = day a \<and> p = period a)"
    define Pb1 where "Pb1 = (double A \<and> c = classId b \<and> d = day b \<and> p = period b + 1)"
    define Pb where "Pb = (c = classId b \<and> d = day b \<and> p = period b)"
    have G: "cellAt ?tt' c d p =
       (if Pa1 then Some (A\<lparr>ref := k + 1, headOfDouble := Some False\<rparr>)
        else if Pa then Some (A\<lparr>ref := k, headOfDouble := headOfDouble A\<rparr>)
        else if Pb1 then None else if Pb then None else cellAt tt c d p)"
      unfolding Pa1_def Pa_def Pb1_def Pb_def by (rule F)
    consider (tail) "Pa1" "e' = A\<lparr>ref := k + 1, headOfDouble := Some False\<rparr>"
      | (head) "Pa" "e' = A\<lparr>ref := k, headOfDouble := headOfDouble A\<rparr>"
      | (old) "\<not> Pa" "\<not> Pb" "cellAt tt c d p = Some e'"
      using c unfolding G by (cases Pa1; cases Pa; cases Pb1; cases Pb) simp_all
    then show "cellOK ?tt' c d p e'"
    proof cases
      case tail
      then show ?thesis by (simp add: cellOK_def Pa1_def)
    next
      case head
      show ?thesis
      proof (cases "double A")
        case True
        have "cellAt ?tt' c d (p + 1) = Some (A\<lparr>ref := k + 1, headOfDouble := Some False\<rparr>)"
          using head(1) True by (simp add: F Pa_def)
        moreover have "tailOf e' (A\<lparr>ref := k + 1, headOfDouble := Some False\<rparr>)"
          using head(2) True uA by (simp add: tailOf_def)
        moreover have "headOfDouble e' = Some True"
          using head(2) True norm by simp
        ultimately show ?thesis using head(2) True by (auto simp: cellOK_def tailOf_def)
      next
        case False
        then show ?thesis using head(2) norm by (simp add: cellOK_def)
      qed
    next
      case old
      have ok: "cellOK tt c d p e'" using po old(3) u by (simp add: pairsOK_def)
      show ?thesis
      proof (rule cellOK_mono[OF ok])
        fix e'' assume tl: "tailOf e' e''" and t: "cellAt tt c d (p + 1) = Some e''"
        have de: "double e''" "headOfDouble e'' = Some False" using tl by (simp_all add: tailOf_def)
        have n1: "\<not> (c = classId a \<and> d = day a \<and> p + 1 = period a)"
          using t cA de hA by auto
        have n2: "\<not> (c = classId b \<and> d = day b \<and> p + 1 = period b)"
          using t cB de hB by auto
        have n3: "\<not> (double A \<and> c = classId a \<and> d = day a \<and> p + 1 = period a + 1)"
          using old(1) by (simp add: Pa_def)
        have n4: "\<not> (double A \<and> c = classId b \<and> d = day b \<and> p + 1 = period b + 1)"
          using old(2) by (simp add: Pb_def)
        show "cellAt ?tt' c d (p + 1) = Some e''"
          unfolding F[of c d "p + 1"] if_not_P[OF n1] if_not_P[OF n2] if_not_P[OF n3] if_not_P[OF n4]
          by (rule t)
      qed
    qed
  qed
qed

subsection \<open>Counting cells by position\<close>

lemma finite_rowPositions [simp]: "finite (rowPositions P row)"
  by (simp add: rowPositions_def)

lemma card_rowPositions: "card (rowPositions P row) = length (filter P row)"
  by (simp add: rowPositions_def length_filter_conv_card)

lemma gridPositions_snoc:
  "gridPositions P (g @ [row]) = gridPositions P g \<union> {length g} \<times> rowPositions P row"
  by (auto simp: gridPositions_def nth_append less_Suc_eq)

lemma finite_gridPositions [simp]: "finite (gridPositions P g)"
proof (induction g rule: rev_induct)
  case Nil
  then show ?case by (simp add: gridPositions_def)
next
  case (snoc row g)
  then show ?case by (simp add: gridPositions_snoc)
qed

lemma card_gridPositions: "card (gridPositions P g) = (\<Sum>row \<leftarrow> g. length (filter P row))"
proof (induction g rule: rev_induct)
  case Nil
  then show ?case by (simp add: gridPositions_def)
next
  case (snoc row g)
  have dj: "gridPositions P g \<inter> {length g} \<times> rowPositions P row = {}"
    by (auto simp: gridPositions_def)
  have "card (gridPositions P (g @ [row])) = card (gridPositions P g) + card ({length g} \<times> rowPositions P row)"
    unfolding gridPositions_snoc by (rule card_Un_disjoint) (simp_all add: dj)
  then show ?case by (simp add: snoc.IH card_rowPositions card_cartesian_product)
qed

lemma teacherPositions_Cons:
  assumes "k \<notin> fst ` set tt"
  shows "teacherPositions ((k, g) # tt) t
           = {k} \<times> gridPositions (cellHasTeacher t) g \<union> teacherPositions tt t"
proof -
  have 1: "cellAt ((k, g) # tt) c d p = (if c = k then gridAt g d p else cellAt tt c d p)" for c d p
    by (simp add: cellAt_def gridOf_def obj_get_def)
  have 2: "cellHasTeacher t (gridAt g d p) \<longleftrightarrow> (d, p) \<in> gridPositions (cellHasTeacher t) g" for d p
    by (auto simp: gridAt_def gridPositions_def rowPositions_def cellHasTeacher_def)
  have 3: "cellHasTeacher t (cellAt tt k d p) = False" for d p
    using assms by (simp add: cellAt_def gridOf_not_key gridAt_def cellHasTeacher_def)
  show ?thesis
    by (auto simp: teacherPositions_def 1 2 3 split: if_splits)
qed

lemma card_teacherPositions:
  "distinct (map fst tt) \<Longrightarrow> card (teacherPositions tt t) = teacherCellCount tt t"
proof (induction tt)
  case Nil
  have "teacherPositions [] t = {}"
    by (auto simp: teacherPositions_def cellAt_def gridOf_def obj_get_def gridAt_def cellHasTeacher_def)
  then show ?case by (simp add: teacherCellCount_def)
next
  case (Cons kv tt)
  obtain k g where kv: "kv = (k, g)" by (cases kv)
  have nk: "k \<notin> fst ` set tt" using Cons.prems kv by auto
  have dj: "{k} \<times> gridPositions (cellHasTeacher t) g \<inter> teacherPositions tt t = {}"
  proof -
    have "c \<noteq> k" if "(c, d, p) \<in> teacherPositions tt t" for c d p
      using that teacherPositions_subset[of tt t] nk
      by (auto simp: allPositions_def)
    then show ?thesis by auto
  qed
  have "card (teacherPositions ((k, g) # tt) t)
      = card ({k} \<times> gridPositions (cellHasTeacher t) g) + card (teacherPositions tt t)"
    unfolding teacherPositions_Cons[OF nk] by (rule card_Un_disjoint) (simp_all add: dj)
  then show ?case
    using Cons.IH Cons.prems
    by (simp add: kv card_cartesian_product card_gridPositions teacherCellCount_def)
qed

subsection \<open>The optimizer keeps the invariants\<close>

lemma shrink_noDoubleBooking:
  assumes s: "\<forall>c d p e'. cellAt tt' c d p = Some e' \<longrightarrow>
           (\<exists>e. cellAt tt c d p = Some e \<and> teacherId e = teacherId e' \<and> resourceId e = resourceId e')"
      and n: "noDoubleBooking tt"
  shows "noDoubleBooking tt'"
  unfolding noDoubleBooking_def
proof (intro allI impI)
  fix c1 c2 d p e1 e2
  assume ne: "c1 \<noteq> c2" and c1: "cellAt tt' c1 d p = Some e1" and c2: "cellAt tt' c2 d p = Some e2"
  from s c1 obtain f1 where f1: "cellAt tt c1 d p = Some f1" "teacherId f1 = teacherId e1"
      "resourceId f1 = resourceId e1" by blast
  from s c2 obtain f2 where f2: "cellAt tt c2 d p = Some f2" "teacherId f2 = teacherId e2"
      "resourceId f2 = resourceId e2" by blast
  from n[unfolded noDoubleBooking_def, rule_format, OF ne f1(1) f2(1)]
  show "(teacherId e1 \<noteq> None \<longrightarrow> teacherId e1 \<noteq> teacherId e2)
        \<and> (resourceId e1 \<noteq> None \<longrightarrow> resourceId e1 \<noteq> resourceId e2)"
    using f1 f2 by simp
qed

lemma shrink_teacherPositions:
  assumes s: "\<forall>c d p e'. cellAt tt' c d p = Some e' \<longrightarrow>
           (\<exists>e. cellAt tt c d p = Some e \<and> teacherId e = teacherId e' \<and> resourceId e = resourceId e')"
  shows "teacherPositions tt' t \<subseteq> teacherPositions tt t"
proof
  fix x assume x: "x \<in> teacherPositions tt' t"
  obtain c d p where xe: "x = (c, d, p)" by (cases x) auto
  from x xe obtain e' where e': "cellAt tt' c d p = Some e'" "teacherId e' = Some t"
    by (auto simp: teacherPositions_def cellHasTeacher_def split: option.splits)
  from s e'(1) obtain e where "cellAt tt c d p = Some e" "teacherId e = teacherId e'" by blast
  with e'(2) xe show "x \<in> teacherPositions tt t"
    by (simp add: teacherPositions_def cellHasTeacher_def)
qed

lemma applySwap_optInv:
  assumes i: "optInv cfg tt"
      and ma: "a \<in> set (collectAssignedSlots tt cfg)" and mb: "b \<in> set (collectAssignedSlots tt cfg)"
  shows "optInv cfg (fst (applySwap a b (tt, n)))"
    and "teacherPositions (fst (applySwap a b (tt, n))) t \<subseteq> teacherPositions tt t"
proof -
  from i have w: "wfTT (workingDays cfg) tt" and nd: "noDoubleBooking tt" and po: "pairsOK tt"
    by (simp_all add: optInv_def)
  note e = swap_effect[OF w po ma mb, of n]
  show "optInv cfg (fst (applySwap a b (tt, n)))"
    unfolding optInv_def
    using wfTT_applySwap[OF w] shrink_noDoubleBooking[OF e(1) nd] e(2) by simp
  show "teacherPositions (fst (applySwap a b (tt, n))) t \<subseteq> teacherPositions tt t"
    by (rule shrink_teacherPositions[OF e(1)])
qed

lemma trySwap_timetable:
  assumes "distinct (map fst (opt_timetable st))"
  shows "opt_timetable (trySwap cfg a b st) = opt_timetable st
         \<or> opt_timetable (trySwap cfg a b st) = fst (applySwap a b (opt_timetable st, opt_nextRef st))"
  using trySwap_rejected(1)[OF assms, of a b cfg] trySwap_accepted(1)[of a b st cfg]
  by blast

lemma iteration_optInv:
  assumes i: "optInv cfg (opt_timetable st)" and it: "optimizerIteration cfg st = Some st'"
  shows "optInv cfg (opt_timetable st')"
    and "teacherPositions (opt_timetable st') t \<subseteq> teacherPositions (opt_timetable st) t"
proof -
  have "optInv cfg (opt_timetable st')
        \<and> teacherPositions (opt_timetable st') t \<subseteq> teacherPositions (opt_timetable st) t"
    using it
  proof (cases rule: iteration_cases)
    case skip
    then show ?thesis using i by simp
  next
    case (trial a b)
    let ?s = "st\<lparr>opt_rng := rng_next (rng_next (opt_rng st))\<rparr>"
    have d: "distinct (map fst (opt_timetable ?s))" using i by (simp add: optInv_def wfTT_def)
    from trySwap_timetable[OF d, of cfg a b]
    show ?thesis
      using trial(5) i applySwap_optInv(1)[OF i trial(1) trial(2), of "opt_nextRef st"]
        applySwap_optInv(2)[OF i trial(1) trial(2), of "opt_nextRef st" t]
      by auto
  qed
  then show "optInv cfg (opt_timetable st')"
    and "teacherPositions (opt_timetable st') t \<subseteq> teacherPositions (opt_timetable st) t"
    by simp_all
qed

lemma loop_optInv:
  "optInv cfg (opt_timetable st) \<Longrightarrow>
   optInv cfg (opt_timetable (optimizeLoop cfg n st))
   \<and> teacherPositions (opt_timetable (optimizeLoop cfg n st)) t \<subseteq> teacherPositions (opt_timetable st) t"
proof (induction n arbitrary: st)
  case 0
  then show ?case by simp
next
  case (Suc n)
  show ?case
  proof (cases "optimizerIteration cfg st")
    case None
    then show ?thesis using Suc.prems by simp
  next
    case (Some st')
    note s1 = iteration_optInv(1)[OF Suc.prems Some]
    note s2 = iteration_optInv(2)[OF Suc.prems Some, of t]
    from Suc.IH[OF s1] s2 show ?thesis using Some by auto
  qed
qed

lemma start_optInv: "optInv cfg (opt_timetable (startState cfg opts))"
  using greedyInv_greedyAssign[of cfg]
  by (simp add: optInv_def greedyInv_def startState_def Let_def)

lemma find_distinct_key:
  "distinct (map f xs) \<Longrightarrow> x \<in> set xs \<Longrightarrow> find (\<lambda>y. f y = f x) xs = Some x"
  by (induction xs) (auto simp: image_iff)

lemma teachersById_distinct:
  assumes "distinct (map teacher_id ts)" and "t \<in> set ts"
  shows "teachersById ts (teacher_id t) = Some t"
proof -
  have "distinct (map teacher_id (rev ts))" using assms(1) by (simp add: rev_map[symmetric])
  from find_distinct_key[OF this, of t] assms(2) show ?thesis by (simp add: teachersById_def)
qed

lemma loadCap_distinct:
  "distinct (map teacher_id (teachers cfg)) \<Longrightarrow> t \<in> set (teachers cfg) \<Longrightarrow>
   loadCap cfg (teacher_id t) = maxLoad t"
  by (simp add: loadCap_def maxLoadByTeacher_def teachersById_distinct)

lemma generated_timetable:
  "timetable (generateTimetable cfg opts t0 t1)
     = opt_timetable (optimizeLoop cfg (iterationsOf opts) (startState cfg opts))"
  by (simp add: generateTimetable_def Let_def)

lemma loop_teacher_bound:
  "int (teacherCellCount (opt_timetable (optimizeLoop cfg n (startState cfg opts))) tid)
     \<le> max 0 (loadCap cfg tid)"
proof -
  let ?fin = "opt_timetable (optimizeLoop cfg n (startState cfg opts))"
  let ?g = "fst (greedyAssign cfg)"
  note l = loop_optInv[OF start_optInv, of cfg n opts tid]
  have d: "distinct (map fst ?fin)" using l by (simp add: optInv_def wfTT_def)
  have g: "opt_timetable (startState cfg opts) = ?g" by (simp add: startState_def Let_def)
  have "card (teacherPositions ?fin tid) \<le> card (teacherPositions ?g tid)"
    using l by (intro card_mono) (simp_all add: g)
  moreover have "int (card (teacherPositions ?g tid)) \<le> max 0 (loadCap cfg tid)"
    using greedyInv_greedyAssign[of cfg]
    by (auto simp: greedyInv_def loadsOK_def intro: order_trans)
  ultimately show ?thesis by (simp add: card_teacherPositions[OF d, symmetric])
qed

section \<open>The penalty of the first scan\<close>










section \<open>Demand and cells\<close>

subsection \<open>Positions of a class\<close>

lemma cellPositions_grid:
  "\<not> P None \<Longrightarrow> cellPositions P tt c = gridPositions P (gridOf tt c)"
  by (auto simp: cellPositions_def cellAt_def gridAt_def gridPositions_def rowPositions_def)

lemma finite_cellPositions: "\<not> P None \<Longrightarrow> finite (cellPositions P tt c)"
  by (simp add: cellPositions_grid)

lemma card_subjectPositions:
  "card (cellPositions (cellHasSubject s) tt c) = subjectCellCount tt c s"
  by (simp add: cellPositions_grid cellHasSubject_def card_gridPositions subjectCellCount_def)

lemma card_periods_line: "card ((\<lambda>q. (d, q)) ` set (periodsOf dbl p)) = periodSpan dbl"
  by (simp add: periodsOf_def periodSpan_def)

lemma step_positions:
  assumes w: "wfTT (workingDays cfg) tt" and key: "req_classId r \<in> fst ` set tt"
      and nP: "\<not> P None" and b: "\<And>e. subjectId e = req_subjectId r \<Longrightarrow> P (Some e) = b"
  shows "assignStep cfg (tt, st) r = (tt, st)
     \<or> (\<exists>d p. (\<forall>q \<in> set (periodsOf (requiresDouble r) p). cellAt tt (req_classId r) d q = None)
          \<and> (\<forall>c. cellPositions P (fst (assignStep cfg (tt, st) r)) c
                = cellPositions P tt c
                  \<union> (if c = req_classId r \<and> b
                     then (\<lambda>q. (d, q)) ` set (periodsOf (requiresDouble r) p) else {})))"
  using w key
proof (cases rule: assignStep_cases[where st = st])
  case (placed d p tid chosen)
  let ?tt' = "fst (assignStep cfg (tt, st) r)"
  let ?E = "assignedEntry (nextRef st) (req_subjectId r) tid chosen (requiresDouble r)"
  let ?T = "?E\<lparr>ref := nextRef st + 1, headOfDouble := Some False\<rparr>"
  have E: "P (Some ?E) = b" "P (Some ?T) = b"
    by (rule b, simp add: assignedEntry_def)+
  have "P (cellAt ?tt' c d' p') \<longleftrightarrow>
          P (cellAt tt c d' p') \<or> (c = req_classId r \<and> b \<and> d' = d \<and> p' \<in> set (periodsOf (requiresDouble r) p))"
    for c d' p'
    using placed(5)[rule_format, of c d' p'] placed(2) nP E
    by (auto simp: periodsOf_set split: if_splits)
  then have "\<forall>c. cellPositions P ?tt' c = cellPositions P tt c
                  \<union> (if c = req_classId r \<and> b
                     then (\<lambda>q. (d, q)) ` set (periodsOf (requiresDouble r) p) else {})"
    by (auto simp: cellPositions_def)
  with placed(2) show ?thesis by blast
next
  case (marked d p)
  let ?tt' = "fst (assignStep cfg (tt, st) r)"
  let ?E = "unassignedMarker (nextRef st) (req_subjectId r)"
  let ?T = "?E\<lparr>ref := nextRef st + 1\<rparr>"
  have E: "P (Some ?E) = b" "P (Some ?T) = b"
    by (rule b, simp add: unassignedMarker_def)+
  have "P (cellAt ?tt' c d' p') \<longleftrightarrow>
          P (cellAt tt c d' p') \<or> (c = req_classId r \<and> b \<and> d' = d \<and> p' \<in> set (periodsOf (requiresDouble r) p))"
    for c d' p'
    using marked(3)[rule_format, of c d' p'] marked(2) nP E
    by (auto simp: periodsOf_set split: if_splits)
  then have "\<forall>c. cellPositions P ?tt' c = cellPositions P tt c
                  \<union> (if c = req_classId r \<and> b
                     then (\<lambda>q. (d, q)) ` set (periodsOf (requiresDouble r) p) else {})"
    by (auto simp: cellPositions_def)
  with marked(2) show ?thesis by blast
next
  case full
  then show ?thesis by simp
qed

lemma step_card:
  assumes w: "wfTT (workingDays cfg) tt" and key: "req_classId r \<in> fst ` set tt"
      and nP: "\<not> P None" and b: "\<And>e. subjectId e = req_subjectId r \<Longrightarrow> P (Some e) = b"
  shows "card (cellPositions P (fst (assignStep cfg (tt, st) r)) c)
           \<le> card (cellPositions P tt c)
              + (if c = req_classId r \<and> b then periodSpan (requiresDouble r) else 0)"
    and "assignStep cfg (tt, st) r \<noteq> (tt, st) \<Longrightarrow>
         card (cellPositions P (fst (assignStep cfg (tt, st) r)) c)
           = card (cellPositions P tt c)
             + (if c = req_classId r \<and> b then periodSpan (requiresDouble r) else 0)"
proof -
  have A: "assignStep cfg (tt, st) r = (tt, st)
      \<or> card (cellPositions P (fst (assignStep cfg (tt, st) r)) c)
           = card (cellPositions P tt c)
             + (if c = req_classId r \<and> b then periodSpan (requiresDouble r) else 0)"
    using step_positions[OF w key nP b, of st]
  proof
    assume "assignStep cfg (tt, st) r = (tt, st)"
    then show ?thesis by simp
  next
    assume "\<exists>d p. (\<forall>q \<in> set (periodsOf (requiresDouble r) p). cellAt tt (req_classId r) d q = None)
          \<and> (\<forall>c. cellPositions P (fst (assignStep cfg (tt, st) r)) c
                = cellPositions P tt c
                  \<union> (if c = req_classId r \<and> b
                     then (\<lambda>q. (d, q)) ` set (periodsOf (requiresDouble r) p) else {}))"
    then obtain d p where free: "\<forall>q \<in> set (periodsOf (requiresDouble r) p). cellAt tt (req_classId r) d q = None"
      and eq: "cellPositions P (fst (assignStep cfg (tt, st) r)) c
                = cellPositions P tt c
                  \<union> (if c = req_classId r \<and> b
                     then (\<lambda>q. (d, q)) ` set (periodsOf (requiresDouble r) p) else {})"
      by blast
    show ?thesis
    proof (cases "c = req_classId r \<and> b")
      case True
      let ?L = "(\<lambda>q. (d, q)) ` set (periodsOf (requiresDouble r) p)"
      have dj: "cellPositions P tt c \<inter> ?L = {}"
        using free nP True by (auto simp: cellPositions_def)
      have "card (cellPositions P tt c \<union> ?L) = card (cellPositions P tt c) + card ?L"
        by (rule card_Un_disjoint) (simp_all add: finite_cellPositions nP dj)
      then show ?thesis using True eq by (simp add: card_periods_line)
    next
      case False
      then show ?thesis using eq by auto
    qed
  qed
  from A show "card (cellPositions P (fst (assignStep cfg (tt, st) r)) c)
           \<le> card (cellPositions P tt c)
              + (if c = req_classId r \<and> b then periodSpan (requiresDouble r) else 0)"
    by auto
  from A show "assignStep cfg (tt, st) r \<noteq> (tt, st) \<Longrightarrow>
         card (cellPositions P (fst (assignStep cfg (tt, st) r)) c)
           = card (cellPositions P tt c)
             + (if c = req_classId r \<and> b then periodSpan (requiresDouble r) else 0)"
    by auto
qed

subsection \<open>A requirement that finds room takes it\<close>

lemma tryAssignSlot_nextRef:
  assumes "(d, p) \<in> set (candidateSlots (arg_dayCount args) (arg_periodCount args)
                          (periodSpan (arg_requiresDouble args)))"
      and "slotsAreFree g d (periodsOf (arg_requiresDouble args) p)"
  shows "nextRef (snd (snd (tryAssignSlot args g st))) = nextRef st + periodSpan (arg_requiresDouble args)"
proof -
  have "find (\<lambda>(d, p). slotsAreFree g d (periodsOf (arg_requiresDouble args) p))
          (candidateSlots (arg_dayCount args) (arg_periodCount args) (periodSpan (arg_requiresDouble args)))
        \<noteq> None"
    using assms by (auto simp: find_None_iff)
  then show ?thesis
    by (auto simp: tryAssignSlot_def Let_def commitPlacement_def markUnassigned_def
             split: option.splits prod.splits)
qed

lemma assignStep_room:
  assumes d: "d < workingDays cfg" and p: "p + periodSpan (requiresDouble r) \<le> periodsPerDay cfg"
      and free: "\<forall>q \<in> set (periodsOf (requiresDouble r) p). cellAt tt (req_classId r) d q = None"
  shows "assignStep cfg (tt, st) r \<noteq> (tt, st)"
proof
  assume "assignStep cfg (tt, st) r = (tt, st)"
  then have "nextRef (snd (assignStep cfg (tt, st) r)) = nextRef st" by simp
  moreover have "nextRef (snd (assignStep cfg (tt, st) r)) = nextRef st + periodSpan (requiresDouble r)"
    unfolding assignStep_def Let_def
    using tryAssignSlot_nextRef[of d p "argsFor cfg r" "gridOf tt (req_classId r)" st] d p free
    by (simp add: argsFor_def candidateSlots_mem slotsAreFree_def list_all_iff cellAt_def)
  ultimately show False by (simp add: periodSpan_def split: if_splits)
qed

lemma room_single:
  assumes "card (cellPositions isUsed tt c) < days * periods"
  shows "\<exists>d p. d < days \<and> p < periods \<and> cellAt tt c d p = None"
proof (rule ccontr)
  assume "\<not> (\<exists>d p. d < days \<and> p < periods \<and> cellAt tt c d p = None)"
  then have "{..<days} \<times> {..<periods} \<subseteq> cellPositions isUsed tt c"
    by (auto simp: cellPositions_def isUsed_def)
  then have "card ({..<days} \<times> {..<periods}) \<le> card (cellPositions isUsed tt c)"
    by (intro card_mono finite_cellPositions) (simp_all add: isUsed_def)
  then show False using assms by (simp add: card_cartesian_product)
qed

subsection \<open>The whole pass\<close>

lemma count_foldl_le:
  assumes "wfTT (workingDays cfg) (fst ts)" and "\<forall>r \<in> set rs. req_classId r \<in> fst ` set (fst ts)"
  shows "card (cellPositions (cellHasSubject s) (fst (foldl (assignStep cfg) ts rs)) c)
      \<le> card (cellPositions (cellHasSubject s) (fst ts) c)
        + (\<Sum>r \<leftarrow> rs. if req_classId r = c \<and> req_subjectId r = s then periodSpan (requiresDouble r) else 0)"
  using assms
proof (induction rs arbitrary: ts)
  case Nil
  then show ?case by simp
next
  case (Cons r rs)
  obtain tt st where ts: "ts = (tt, st)" by (cases ts)
  have w: "wfTT (workingDays cfg) tt" and key: "req_classId r \<in> fst ` set tt"
    using Cons.prems by (simp_all add: ts)
  have s: "card (cellPositions (cellHasSubject s) (fst (assignStep cfg ts r)) c)
      \<le> card (cellPositions (cellHasSubject s) tt c)
        + (if req_classId r = c \<and> req_subjectId r = s then periodSpan (requiresDouble r) else 0)"
    using step_card(1)[OF w key, of "cellHasSubject s" "req_subjectId r = s" st c]
    by (auto simp: cellHasSubject_def ts)
  have "card (cellPositions (cellHasSubject s) (fst (foldl (assignStep cfg) (assignStep cfg ts r) rs)) c)
      \<le> card (cellPositions (cellHasSubject s) (fst (assignStep cfg ts r)) c)
        + (\<Sum>r \<leftarrow> rs. if req_classId r = c \<and> req_subjectId r = s then periodSpan (requiresDouble r) else 0)"
    using Cons.prems by (intro Cons.IH) (simp_all add: wfTT_assignStep)
  with s show ?case by (simp add: ts)
qed

lemma count_foldl_eq:
  assumes "wfTT (workingDays cfg) (fst ts)" and "\<forall>r \<in> set rs. req_classId r \<in> fst ` set (fst ts)"
      and "\<forall>r \<in> set rs. req_classId r = c \<and> req_subjectId r = s \<longrightarrow> \<not> requiresDouble r"
      and "card (cellPositions isUsed (fst ts) c)
             + (\<Sum>r \<leftarrow> rs. if req_classId r = c then periodSpan (requiresDouble r) else 0)
           \<le> workingDays cfg * periodsPerDay cfg"
  shows "card (cellPositions (cellHasSubject s) (fst (foldl (assignStep cfg) ts rs)) c)
      = card (cellPositions (cellHasSubject s) (fst ts) c)
        + (\<Sum>r \<leftarrow> rs. if req_classId r = c \<and> req_subjectId r = s then periodSpan (requiresDouble r) else 0)"
  using assms
proof (induction rs arbitrary: ts)
  case Nil
  then show ?case by simp
next
  case (Cons r rs)
  obtain tt st where ts: "ts = (tt, st)" by (cases ts)
  let ?ts' = "assignStep cfg (tt, st) r"
  let ?wC = "\<lambda>r. if req_classId r = c then periodSpan (requiresDouble r) else 0"
  let ?wS = "\<lambda>r. if req_classId r = c \<and> req_subjectId r = s then periodSpan (requiresDouble r) else 0"
  have w: "wfTT (workingDays cfg) tt" and key: "req_classId r \<in> fst ` set tt"
    using Cons.prems by (simp_all add: ts)
  have cap: "card (cellPositions isUsed tt c) + ?wC r + (\<Sum>r \<leftarrow> rs. ?wC r)
               \<le> workingDays cfg * periodsPerDay cfg"
    using Cons.prems(4) by (simp add: ts)
  have used: "card (cellPositions isUsed (fst ?ts') c) \<le> card (cellPositions isUsed tt c) + ?wC r"
    using step_card(1)[OF w key, of isUsed True st c] by (auto simp: isUsed_def)
  have subj: "card (cellPositions (cellHasSubject s) (fst ?ts') c)
                = card (cellPositions (cellHasSubject s) tt c) + ?wS r"
  proof (cases "?ts' = (tt, st)")
    case same: True
    show ?thesis
    proof (cases "req_classId r = c \<and> req_subjectId r = s")
      case True
      then have single: "\<not> requiresDouble r" using Cons.prems(3) by simp
      have "card (cellPositions isUsed tt c) < workingDays cfg * periodsPerDay cfg"
        using cap True single by (simp add: periodSpan_def)
      from room_single[OF this] obtain d p where dp: "d < workingDays cfg" "p < periodsPerDay cfg"
          "cellAt tt c d p = None" by blast
      have "?ts' \<noteq> (tt, st)"
        by (rule assignStep_room[of d cfg p]) (use dp True single in \<open>simp_all add: periodSpan_def periodsOf_def\<close>)
      with same show ?thesis by simp
    next
      case False
      then show ?thesis using same by auto
    qed
  next
    case False
    from step_card(2)[OF w key _ _ False, of "cellHasSubject s" "req_subjectId r = s" c]
    show ?thesis by (auto simp: cellHasSubject_def)
  qed
  have "card (cellPositions (cellHasSubject s) (fst (foldl (assignStep cfg) ?ts' rs)) c)
      = card (cellPositions (cellHasSubject s) (fst ?ts') c) + (\<Sum>r \<leftarrow> rs. ?wS r)"
  proof (rule Cons.IH)
    show "wfTT (workingDays cfg) (fst ?ts')" using w by (simp add: wfTT_assignStep[of cfg "(tt, st)", simplified])
    show "\<forall>r \<in> set rs. req_classId r \<in> fst ` set (fst ?ts')" using Cons.prems(2) by (simp add: ts)
    show "\<forall>r \<in> set rs. req_classId r = c \<and> req_subjectId r = s \<longrightarrow> \<not> requiresDouble r"
      using Cons.prems(3) by simp
    show "card (cellPositions isUsed (fst ?ts') c) + (\<Sum>r \<leftarrow> rs. ?wC r)
            \<le> workingDays cfg * periodsPerDay cfg"
      using used cap by linarith
  qed
  with subj show ?case by (simp add: ts)
qed

lemma sum_insertRequired:
  "(\<Sum>r \<leftarrow> insertRequired x xs. f r) = f x + (\<Sum>r \<leftarrow> xs. (f r :: nat))"
  by (induction xs) simp_all

lemma sum_sortRequired: "(\<Sum>r \<leftarrow> sortRequired xs. f r) = (\<Sum>r \<leftarrow> xs. (f r :: nat))"
  by (induction xs) (simp_all add: sortRequired_def sum_insertRequired)

lemma flattenRequired_double:
  "r \<in> set (flattenRequired cfg) \<Longrightarrow> requiresDouble r = subjectDouble cfg (req_subjectId r)"
  by (auto simp: flattenRequired_def requirementsFor_def Let_def subjectDouble_def split: option.splits)

lemma cellPositions_emptyTimetable: "\<not> P None \<Longrightarrow> cellPositions P (emptyTimetable cfg) c = {}"
  by (simp add: cellPositions_def)

lemma greedy_demand_le: "subjectCellCount (fst (greedyAssign cfg)) c s \<le> demandCells cfg c s"
proof -
  have "card (cellPositions (cellHasSubject s) (fst (greedyAssign cfg)) c)
      \<le> card (cellPositions (cellHasSubject s) (fst (emptyTimetable cfg, initialScheduler)) c)
        + (\<Sum>r \<leftarrow> sortRequired (flattenRequired cfg).
             if req_classId r = c \<and> req_subjectId r = s then periodSpan (requiresDouble r) else 0)"
    unfolding greedyAssign_def
    by (rule count_foldl_le) (auto simp: wfTT_emptyTimetable keys_emptyTimetable dest: flattenRequired_class)
  then show ?thesis
    by (simp add: card_subjectPositions[symmetric] cellPositions_emptyTimetable cellHasSubject_def
          sum_sortRequired demandCells_def sum_list_map_filter')
qed

lemma greedy_demand_eq:
  assumes "\<not> subjectDouble cfg s"
      and "classDemandCells cfg c \<le> workingDays cfg * periodsPerDay cfg"
  shows "subjectCellCount (fst (greedyAssign cfg)) c s = demandCells cfg c s"
proof -
  have "card (cellPositions (cellHasSubject s) (fst (greedyAssign cfg)) c)
      = card (cellPositions (cellHasSubject s) (fst (emptyTimetable cfg, initialScheduler)) c)
        + (\<Sum>r \<leftarrow> sortRequired (flattenRequired cfg).
             if req_classId r = c \<and> req_subjectId r = s then periodSpan (requiresDouble r) else 0)"
    unfolding greedyAssign_def
  proof (rule count_foldl_eq)
    show "wfTT (workingDays cfg) (fst (emptyTimetable cfg, initialScheduler))"
      by (simp add: wfTT_emptyTimetable)
    show "\<forall>r \<in> set (sortRequired (flattenRequired cfg)).
            req_classId r \<in> fst ` set (fst (emptyTimetable cfg, initialScheduler))"
      by (auto simp: keys_emptyTimetable dest: flattenRequired_class)
    show "\<forall>r \<in> set (sortRequired (flattenRequired cfg)).
            req_classId r = c \<and> req_subjectId r = s \<longrightarrow> \<not> requiresDouble r"
      using assms(1) by (auto dest: flattenRequired_double)
    show "card (cellPositions isUsed (fst (emptyTimetable cfg, initialScheduler)) c)
           + (\<Sum>r \<leftarrow> sortRequired (flattenRequired cfg).
                if req_classId r = c then periodSpan (requiresDouble r) else 0)
          \<le> workingDays cfg * periodsPerDay cfg"
      using assms(2)
      by (simp add: cellPositions_emptyTimetable isUsed_def sum_sortRequired classDemandCells_def
            sum_list_map_filter')
  qed
  then show ?thesis
    by (simp add: card_subjectPositions[symmetric] cellPositions_emptyTimetable cellHasSubject_def
          sum_sortRequired demandCells_def sum_list_map_filter')
qed

subsection \<open>The optimizer adds no cell\<close>

lemma swap_keeps_subject:
  assumes w: "wfTT (workingDays cfg) tt" and po: "pairsOK tt"
      and ma: "a \<in> set (collectAssignedSlots tt cfg)" and mb: "b \<in> set (collectAssignedSlots tt cfg)"
  shows "\<forall>c d p e'. cellAt (fst (applySwap a b (tt, n))) c d p = Some e' \<longrightarrow>
           (\<exists>e. cellAt tt c d p = Some e \<and> subjectId e = subjectId e')"
proof (intro allI impI)
  fix c d p e'
  let ?tt' = "fst (applySwap a b (tt, n))"
  assume c: "cellAt ?tt' c d p = Some e'"
  have dk: "distinct (map fst tt)" using w by (simp add: wfTT_def)
  note ia = pool_item[OF dk ma] and ib = pool_item[OF dk mb]
  define A where "A = item_entry a"
  define k where "k = n + (if double A then 2 else 1)"
  have cA: "cellAt tt (classId a) (day a) (period a) = Some A" and uA: "\<not> unassigned A"
    and hA: "\<not> (double A \<and> headOfDouble A = Some False)"
    using ia by (simp_all add: A_def)
  have okA: "cellOK tt (classId a) (day a) (period a) A"
    using po cA uA by (simp add: pairsOK_def)
  obtain T where T: "double A \<Longrightarrow> cellAt tt (classId a) (day a) (period a + 1) = Some T \<and> tailOf A T"
    using okA hA by (cases "double A") (auto simp: cellOK_def)
  define Pa1 where "Pa1 = (double A \<and> c = classId a \<and> d = day a \<and> p = period a + 1)"
  define Pa where "Pa = (c = classId a \<and> d = day a \<and> p = period a)"
  define Pb1 where "Pb1 = (double A \<and> c = classId b \<and> d = day b \<and> p = period b + 1)"
  define Pb where "Pb = (c = classId b \<and> d = day b \<and> p = period b)"
  have G: "cellAt ?tt' c d p =
     (if Pa1 then Some (A\<lparr>ref := k + 1, headOfDouble := Some False\<rparr>)
      else if Pa then Some (A\<lparr>ref := k, headOfDouble := (if double A then Some True else None)\<rparr>)
      else if Pb1 then None else if Pb then None else cellAt tt c d p)"
    unfolding Pa1_def Pa_def Pb1_def Pb_def k_def
    by (rule cellAt_applySwap[OF w ia(1) ib(1) ia(2) ib(2) cA])
  consider (tail) "Pa1" "e' = A\<lparr>ref := k + 1, headOfDouble := Some False\<rparr>"
    | (head) "Pa" "e' = A\<lparr>ref := k, headOfDouble := (if double A then Some True else None)\<rparr>"
    | (old) "cellAt tt c d p = Some e'"
    using c unfolding G by (cases Pa1; cases Pa; cases Pb1; cases Pb) simp_all
  then show "\<exists>e. cellAt tt c d p = Some e \<and> subjectId e = subjectId e'"
  proof cases
    case tail
    then have "cellAt tt c d p = Some T \<and> tailOf A T" using T by (simp add: Pa1_def)
    then show ?thesis using tail(2) by (simp add: tailOf_def)
  next
    case head
    then show ?thesis using cA by (simp add: Pa_def)
  next
    case old
    then show ?thesis by simp
  qed
qed

lemma iteration_keeps_subject:
  assumes i: "optInv cfg (opt_timetable st)" and it: "optimizerIteration cfg st = Some st'"
  shows "\<forall>c d p e'. cellAt (opt_timetable st') c d p = Some e' \<longrightarrow>
           (\<exists>e. cellAt (opt_timetable st) c d p = Some e \<and> subjectId e = subjectId e')"
  using it
proof (cases rule: iteration_cases)
  case skip
  then show ?thesis by simp
next
  case (trial a b)
  let ?s = "st\<lparr>opt_rng := rng_next (rng_next (opt_rng st))\<rparr>"
  from i have w: "wfTT (workingDays cfg) (opt_timetable st)" and po: "pairsOK (opt_timetable st)"
    by (simp_all add: optInv_def)
  have d: "distinct (map fst (opt_timetable ?s))" using w by (simp add: wfTT_def)
  from trySwap_timetable[OF d, of cfg a b]
  show ?thesis
  proof
    assume "opt_timetable (trySwap cfg a b ?s) = opt_timetable ?s"
    then show ?thesis by (simp add: trial(5))
  next
    assume "opt_timetable (trySwap cfg a b ?s) = fst (applySwap a b (opt_timetable ?s, opt_nextRef ?s))"
    then show ?thesis
      using swap_keeps_subject[OF w po trial(1) trial(2), of "opt_nextRef st"] by (simp add: trial(5))
  qed
qed

lemma loop_keeps_subject:
  "optInv cfg (opt_timetable st) \<Longrightarrow>
   \<forall>c d p e'. cellAt (opt_timetable (optimizeLoop cfg n st)) c d p = Some e' \<longrightarrow>
     (\<exists>e. cellAt (opt_timetable st) c d p = Some e \<and> subjectId e = subjectId e')"
proof (induction n arbitrary: st)
  case 0
  then show ?case by simp
next
  case (Suc n)
  show ?case
  proof (cases "optimizerIteration cfg st")
    case None
    then show ?thesis by simp
  next
    case (Some st')
    note s1 = iteration_optInv(1)[OF Suc.prems Some]
    note s2 = iteration_keeps_subject[OF Suc.prems Some]
    show ?thesis
    proof (intro allI impI)
      fix c d p e' assume "cellAt (opt_timetable (optimizeLoop cfg (Suc n) st)) c d p = Some e'"
      then have "cellAt (opt_timetable (optimizeLoop cfg n st')) c d p = Some e'" using Some by simp
      with Suc.IH[OF s1] obtain e1 where e1: "cellAt (opt_timetable st') c d p = Some e1"
          "subjectId e1 = subjectId e'" by blast
      with s2 obtain e where "cellAt (opt_timetable st) c d p = Some e" "subjectId e = subjectId e1"
        by blast
      with e1 show "\<exists>e. cellAt (opt_timetable st) c d p = Some e \<and> subjectId e = subjectId e'"
        by simp
    qed
  qed
qed

lemma loop_subject_count:
  "subjectCellCount (opt_timetable (optimizeLoop cfg n (startState cfg opts))) c s
     \<le> subjectCellCount (fst (greedyAssign cfg)) c s"
proof -
  have g: "opt_timetable (startState cfg opts) = fst (greedyAssign cfg)"
    by (simp add: startState_def Let_def)
  note k = loop_keeps_subject[OF start_optInv[of cfg opts], of n, unfolded g, rule_format]
  have "cellPositions (cellHasSubject s) (opt_timetable (optimizeLoop cfg n (startState cfg opts))) c
          \<subseteq> cellPositions (cellHasSubject s) (fst (greedyAssign cfg)) c"
  proof
    fix x assume x: "x \<in> cellPositions (cellHasSubject s) (opt_timetable (optimizeLoop cfg n (startState cfg opts))) c"
    obtain d p where xe: "x = (d, p)" by (cases x)
    from x xe obtain e' where e': "cellAt (opt_timetable (optimizeLoop cfg n (startState cfg opts))) c d p = Some e'"
        "subjectId e' = s"
      by (auto simp: cellPositions_def cellHasSubject_def split: option.splits)
    from k[OF e'(1)] obtain e where "cellAt (fst (greedyAssign cfg)) c d p = Some e" "subjectId e = subjectId e'"
      by blast
    with e'(2) xe show "x \<in> cellPositions (cellHasSubject s) (fst (greedyAssign cfg)) c"
      by (simp add: cellPositions_def cellHasSubject_def)
  qed
  then have "card (cellPositions (cellHasSubject s) (opt_timetable (optimizeLoop cfg n (startState cfg opts))) c)
          \<le> card (cellPositions (cellHasSubject s) (fst (greedyAssign cfg)) c)"
    by (intro card_mono finite_cellPositions) (simp_all add: cellHasSubject_def)
  then show ?thesis by (simp add: card_subjectPositions)
qed

subsection \<open>The demand in terms of the configuration\<close>

lemma sum_requirementsFor:
  "(\<Sum>r \<leftarrow> requirementsFor (subjectsById (subjects cfg)) cid kv.
       if req_classId r = c \<and> req_subjectId r = s then periodSpan (requiresDouble r) else 0)
   = (if cid = c \<and> fst kv = s then nat (toInt32 (snd kv)) * periodSpan (subjectDouble cfg s) else 0)"
  by (auto simp: requirementsFor_def Let_def subjectDouble_def sum_list_replicate split: option.splits)

lemma sum_list_concat_map:
  "(\<Sum>r \<leftarrow> concat xss. f r) = (\<Sum>xs \<leftarrow> xss. \<Sum>r \<leftarrow> xs. (f r :: nat))"
  by (induction xss) simp_all

lemma demandCells_config:
  "demandCells cfg c s =
     (\<Sum>cls \<leftarrow> classes cfg. \<Sum>kv \<leftarrow> class_subjects cls.
        if class_id cls = c \<and> fst kv = s then nat (toInt32 (snd kv)) * periodSpan (subjectDouble cfg s) else 0)"
proof -
  have "demandCells cfg c s =
      (\<Sum>cls \<leftarrow> classes cfg. \<Sum>kv \<leftarrow> class_subjects cls.
         \<Sum>r \<leftarrow> requirementsFor (subjectsById (subjects cfg)) (class_id cls) kv.
           if req_classId r = c \<and> req_subjectId r = s then periodSpan (requiresDouble r) else 0)"
    by (simp add: demandCells_def sum_list_map_filter' flattenRequired_def sum_list_concat_map comp_def)
  then show ?thesis by (simp only: sum_requirementsFor)
qed

lemma sum_list_key:
  "distinct (map k xs) \<Longrightarrow> x \<in> set xs \<Longrightarrow> (\<Sum>y \<leftarrow> xs. if k y = k x then f y else 0) = (f x :: nat)"
proof (induction xs)
  case Nil
  then show ?case by simp
next
  case (Cons y ys)
  show ?case
  proof (cases "y = x")
    case True
    have "k x \<notin> k ` set ys" using Cons.prems True by simp
    then have "\<forall>z \<in> set ys. k z \<noteq> k x" by (metis imageI)
    then have "(\<Sum>z \<leftarrow> ys. if k z = k x then f z else 0) = 0" by (simp add: sum_list_eq_0_iff)
    then show ?thesis using True by simp
  next
    case False
    then have "x \<in> set ys" "k y \<noteq> k x" using Cons.prems by auto
    then show ?thesis using Cons by simp
  qed
qed

subsection \<open>The demand read off the configuration\<close>

lemma sum_requirementsFor_class:
  "(\<Sum>r \<leftarrow> requirementsFor (subjectsById (subjects cfg)) cid kv.
       if req_classId r = c then periodSpan (requiresDouble r) else 0)
   = (if cid = c then nat (toInt32 (snd kv)) * periodSpan (subjectDouble cfg (fst kv)) else 0)"
  by (auto simp: requirementsFor_def Let_def subjectDouble_def sum_list_replicate split: option.splits)

lemma classDemandCells_config: "classDemandCells cfg c = classDemand cfg c"
proof -
  have "classDemandCells cfg c =
      (\<Sum>cls \<leftarrow> classes cfg. \<Sum>kv \<leftarrow> class_subjects cls.
         \<Sum>r \<leftarrow> requirementsFor (subjectsById (subjects cfg)) (class_id cls) kv.
           if req_classId r = c then periodSpan (requiresDouble r) else 0)"
    by (simp add: classDemandCells_def sum_list_map_filter' flattenRequired_def sum_list_concat_map comp_def)
  also have "\<dots> = (\<Sum>cls \<leftarrow> classes cfg. if class_id cls = c
        then \<Sum>kv \<leftarrow> class_subjects cls. nat (toInt32 (snd kv)) * periodSpan (subjectDouble cfg (fst kv))
        else 0)"
    unfolding sum_requirementsFor_class
    by (intro arg_cong[where f = sum_list] map_cong refl) simp
  finally show ?thesis by (simp add: classDemand_def sum_list_map_filter')
qed

lemma sum_list_if_times:
  "(\<Sum>x \<leftarrow> xs. if A \<and> Q x then g x * k else 0) = (if A then (\<Sum>x \<leftarrow> filter Q xs. g x) * k else (0::nat))"
  by (induction xs) (simp_all add: algebra_simps)

lemma sum_list_filter_times:
  "(\<Sum>x \<leftarrow> xs. if Q x then F x * k else 0) = (\<Sum>x \<leftarrow> filter Q xs. F x) * (k::nat)"
  by (induction xs) (simp_all add: algebra_simps)

lemma demandCells_weeklyCount:
  "demandCells cfg c s = weeklyCount cfg c s * periodSpan (subjectDouble cfg s)"
  unfolding demandCells_config weeklyCount_def sum_list_if_times sum_list_filter_times ..

lemma weeklyCount_distinct:
  assumes dc: "distinct (map class_id (classes cfg))" and cls: "cls \<in> set (classes cfg)"
      and ds: "distinct (map fst (class_subjects cls))" and sn: "(s, n) \<in> set (class_subjects cls)"
  shows "weeklyCount cfg (class_id cls) s = nat (toInt32 n)"
proof -
  let ?F = "\<lambda>c. \<Sum>kv \<leftarrow> class_subjects c. if fst kv = s then nat (toInt32 (snd kv)) else 0"
  have "weeklyCount cfg (class_id cls) s
      = (\<Sum>c \<leftarrow> classes cfg. if class_id c = class_id cls then ?F c else 0)"
    by (simp add: weeklyCount_def sum_list_map_filter')
  also have "\<dots> = ?F cls" by (rule sum_list_key[OF dc cls])
  also have "\<dots> = nat (toInt32 n)"
    using sum_list_key[OF ds sn, of "\<lambda>kv. nat (toInt32 (snd kv))"] by simp
  finally show ?thesis .
qed

subsection \<open>Examples\<close>

lemma greedy_cfgF: "fst (greedyAssign cfgF) = ttB"
  by (simp add: cfgF_def cfgB_def eval_defs Let_def hB_def tB_def ttB_def eval_nat)

lemma count_ttB: "subjectCellCount ttB ''c1'' ''m'' = 4"
  by (simp add: subjectCellCount_def cellHasSubject_def gridOf_def obj_get_def ttB_def hB_def tB_def)

lemma demand_cfgF: "weeklyCount cfgF ''c1'' ''m'' = 3" "subjectDouble cfgF ''m''"
  by (simp_all add: weeklyCount_def subjectDouble_def subjectsById_def toInt32_def cfgF_def cfgB_def)

lemma demand_cfgA: "weeklyCount cfgA ''c1'' ''m'' = 1" "\<not> subjectDouble cfgA ''m''"
    "classDemand cfgA ''c1'' = 1"
  by (simp_all add: weeklyCount_def classDemand_def subjectDouble_def subjectsById_def toInt32_def
        periodSpan_def cfgA_def)

lemma iterations_noOptimizer: "iterationsOf noOptimizer = 0"
  by (simp add: iterationsOf_def noOptimizer_def)

lemma size_cfgA: "workingDays cfgA = 1" "periodsPerDay cfgA = 2"
  by (simp_all add: cfgA_def)

section \<open>Options: the iteration budget and the seed\<close>

text \<open>
  Claim C8. With \<open>optimizeIterations = 0\<close> the optimizer loop does not run: the state
  it is given comes back unchanged (no draw from the generator, no swap), and the
  timetable and the diagnostics returned are those of the greedy pass.
\<close>

theorem zero_iterations_is_greedy:
  "optimizeLoop cfg (iterationsOf (opts\<lparr>optimizeIterations := Some 0\<rparr>)) st = st
   \<and> timetable (generateTimetable cfg (opts\<lparr>optimizeIterations := Some 0\<rparr>) t0 t1) = fst (greedyAssign cfg)
   \<and> diag (generateTimetable cfg (opts\<lparr>optimizeIterations := Some 0\<rparr>) t0 t1)
       = computeDiagnostics (fst (greedyAssign cfg)) cfg"
  by (simp add: generateTimetable_def startState_def iterationsOf_def Let_def)

text \<open>
  Claim C10. A seed of 0 is replaced by 42 before the generator is created, so the whole
  result of \<open>generateTimetable\<close> with seed 0 is the result with seed 42, and the result
  with the seed left out.
\<close>

theorem seed_zero_is_default:
  "generateTimetable cfg (opts\<lparr>seed := Some 0\<rparr>) t0 t1 = generateTimetable cfg (opts\<lparr>seed := Some 42\<rparr>) t0 t1
   \<and> generateTimetable cfg (opts\<lparr>seed := Some 0\<rparr>) t0 t1 = generateTimetable cfg (opts\<lparr>seed := None\<rparr>) t0 t1
   \<and> createRng (seedOf (opts\<lparr>seed := Some 0\<rparr>)) = createRng 42"
  by (simp add: generateTimetable_def startState_def seedOf_def iterationsOf_def)

section \<open>Determinism\<close>

text \<open>
  Claim C9, as stated, fails on the diagnostics: they carry \<open>timeTakenMs\<close> and
  \<open>timeMs\<close>, the difference of two clock readings. Two calls with the same
  configuration, seed and budget whose clock readings differ return different results.
\<close>

theorem timing_fields_differ:
  "generateTimetable \<lparr>workingDays = 1, periodsPerDay = 1, subjects = [], teachers = [], classes = [], resources = []\<rparr>
      \<lparr>optimizeIterations = Some 0, seed = Some 1\<rparr> 0 0
   \<noteq> generateTimetable \<lparr>workingDays = 1, periodsPerDay = 1, subjects = [], teachers = [], classes = [], resources = []\<rparr>
      \<lparr>optimizeIterations = Some 0, seed = Some 1\<rparr> 0 1"
  by (simp add: generateTimetable_def Let_def)

text \<open>
  Claim C9, amended. Two calls with the same configuration, seed and iteration budget
  return the same timetable and the same \<open>unassignedCount\<close>, \<open>penaltyScore\<close> and
  \<open>teacherLoads\<close>, whatever the clock reads; only the two timing fields can differ.
\<close>

theorem deterministic_apart_from_timing:
  "timetable (generateTimetable cfg opts t0 t1) = timetable (generateTimetable cfg opts t0' t1')
   \<and> diag (generateTimetable cfg opts t0 t1) = diag (generateTimetable cfg opts t0' t1')"
  by (simp add: generateTimetable_def Let_def)

section \<open>The optimizer: score, rollback and the swap itself\<close>

text \<open>
  Claim C7. Across the iterations of the optimizer \<open>bestPenalty\<close> never goes up; it is
  at every point the score of the timetable the optimizer holds; an iteration that
  changes the timetable lowers it strictly; and the \<open>penaltyScore\<close> returned by
  \<open>generateTimetable\<close> is \<open>computeDiagnostics\<close> applied to the returned timetable.
\<close>

theorem best_penalty_non_increasing:
  "bestPenalty (optimizeLoop cfg (n + k) (startState cfg opts)) \<le> bestPenalty (optimizeLoop cfg n (startState cfg opts))
   \<and> bestPenalty (optimizeLoop cfg n (startState cfg opts))
       = penaltyScore (computeDiagnostics (opt_timetable (optimizeLoop cfg n (startState cfg opts))) cfg)
   \<and> (opt_timetable (optimizeLoop cfg (Suc n) (startState cfg opts))
         \<noteq> opt_timetable (optimizeLoop cfg n (startState cfg opts))
       \<longrightarrow> bestPenalty (optimizeLoop cfg (Suc n) (startState cfg opts))
             < bestPenalty (optimizeLoop cfg n (startState cfg opts)))
   \<and> penaltyScore (diag (generateTimetable cfg opts t0 t1))
       = penaltyScore (computeDiagnostics (timetable (generateTimetable cfg opts t0 t1)) cfg)"
proof -
  have a: "bestPenalty (optimizeLoop cfg (n + k) (startState cfg opts))
             \<le> bestPenalty (optimizeLoop cfg n (startState cfg opts))"
    by (simp add: loop_add loop_le)
  have b: "bestPenalty (optimizeLoop cfg n (startState cfg opts))
       = penaltyScore (computeDiagnostics (opt_timetable (optimizeLoop cfg n (startState cfg opts))) cfg)"
    using loop_consistent[OF startState_consistent, of cfg n opts]
    by (simp add: consistent_def computePenalty_def)
  have c: "penaltyScore (diag (generateTimetable cfg opts t0 t1))
       = penaltyScore (computeDiagnostics (timetable (generateTimetable cfg opts t0 t1)) cfg)"
    by (simp add: generateTimetable_def Let_def)
  have d: "opt_timetable (optimizeLoop cfg (Suc n) (startState cfg opts))
         \<noteq> opt_timetable (optimizeLoop cfg n (startState cfg opts))
       \<longrightarrow> bestPenalty (optimizeLoop cfg (Suc n) (startState cfg opts))
             < bestPenalty (optimizeLoop cfg n (startState cfg opts))"
    using loop_step_unaccepted[of cfg n opts] by blast
  show ?thesis using a b c d by blast
qed

theorem best_penalty_non_increasing_witness:
  "opt_timetable (optimizeLoop cfgB (Suc 0) (startState cfgB seed3))
     \<noteq> opt_timetable (optimizeLoop cfgB 0 (startState cfgB seed3))
   \<and> bestPenalty (optimizeLoop cfgB (Suc 0) (startState cfgB seed3)) = 10
   \<and> bestPenalty (optimizeLoop cfgB 0 (startState cfgB seed3)) = 30
   \<and> bestPenalty (optimizeLoop cfgB (Suc 0) (startState cfgB seed3))
       < bestPenalty (optimizeLoop cfgB 0 (startState cfgB seed3))"
proof -
  have r0: "optimizeLoop cfgB 0 (startState cfgB seed3)
      = \<lparr>opt_timetable = ttB, bestPenalty = 30, opt_rng = 3, opt_nextRef = 4\<rparr>"
    by (simp add: start_cfgB)
  have ne: "ttB' \<noteq> ttB"
    by (simp add: ttB_def ttB'_def)
  show ?thesis
    using best_penalty_non_increasing[of cfgB 0 1 seed3 0 0] ne
    unfolding run_cfgB r0 by simp
qed



text \<open>
  Claim C2 describes an exchange of the two entries. \<open>applySwap\<close> does not do that: its
  second \<open>moveEntry\<close> reads the cell of \<open>b\<close> after the first has overwritten it with
  the entry of \<open>a\<close>, so the entry of \<open>a\<close> goes back to its own cell and the entry of
  \<open>b\<close> is lost. On the greedy timetable of \<open>cfgA\<close>, with the two pool items, the swap is
  feasible and leaves class \<open>c2\<close> empty.
\<close>

theorem applySwap_loses_second_entry:
  "fst (greedyAssign cfgA) = [(''c1'', [[Some eA, None]]), (''c2'', [[None, Some eB]])]
   \<and> collectAssignedSlots (fst (greedyAssign cfgA)) cfgA = [itemA1, itemA2]
   \<and> swapFeasible itemA1 itemA2 (fst (greedyAssign cfgA)) cfgA
   \<and> fst (applySwap itemA1 itemA2 (fst (greedyAssign cfgA), 2))
       = [(''c1'', [[Some (eA\<lparr>ref := 3\<rparr>), None]]), (''c2'', [[None, None]])]"
  by (simp add: greedy_cfgA pool_ttA feasible_ttA swap_ttA) (simp add: ttA_def ttA'_def)

section \<open>No double-booking and the load bound\<close>

text \<open>
  Claim C1. After the greedy pass (\<open>n = 0\<close>) and after every iteration of the optimizer
  (\<open>n\<close> iterations, whether their swaps were kept, undone or not tried), two different
  classes never hold the same teacher and never hold the same resource at the same day
  and period. The timetable \<open>generateTimetable\<close> returns is the one after
  \<open>iterationsOf opts\<close> iterations (lemma \<open>generated_timetable\<close>).
\<close>

theorem no_double_booking:
  assumes "c1 \<noteq> c2"
      and "cellAt (opt_timetable (optimizeLoop cfg n (startState cfg opts))) c1 d p = Some e1"
      and "cellAt (opt_timetable (optimizeLoop cfg n (startState cfg opts))) c2 d p = Some e2"
  shows "(teacherId e1 \<noteq> None \<longrightarrow> teacherId e1 \<noteq> teacherId e2)
         \<and> (resourceId e1 \<noteq> None \<longrightarrow> resourceId e1 \<noteq> resourceId e2)"
proof -
  have "noDoubleBooking (opt_timetable (optimizeLoop cfg n (startState cfg opts)))"
    using loop_optInv[OF start_optInv, of cfg n opts] by (simp add: optInv_def)
  from this[unfolded noDoubleBooking_def, rule_format, OF assms] show ?thesis .
qed

theorem no_double_booking_witness:
  "''c1'' \<noteq> ''c2''
   \<and> cellAt (opt_timetable (optimizeLoop cfgC (Suc 0) (startState cfgC seed3))) ''c1'' 0 0 = Some eA
   \<and> cellAt (opt_timetable (optimizeLoop cfgC (Suc 0) (startState cfgC seed3))) ''c2'' 0 0 = Some eB
   \<and> teacherId eA = Some ''t1'' \<and> teacherId eB = Some ''t2'' \<and> teacherId eA \<noteq> teacherId eB"
proof -
  have a: "cellAt (opt_timetable (optimizeLoop cfgC (Suc 0) (startState cfgC seed3))) ''c1'' 0 0 = Some eA"
    and b: "cellAt (opt_timetable (optimizeLoop cfgC (Suc 0) (startState cfgC seed3))) ''c2'' 0 0 = Some eB"
    unfolding run_cfgC by (simp_all add: ttC_def cellAt_def gridOf_def obj_get_def gridAt_def)
  have ne: "''c1'' \<noteq> ''c2''" by simp
  show ?thesis
    using no_double_booking[OF ne a b] a b by (simp add: eA_def eB_def)
qed

text \<open>
  Claim C5, as stated, fails where two teacher records share an id: \<open>maxLoadByTeacher\<close>
  and \<open>teachersById\<close> keep the last record of an id, so the limit that is enforced is
  the \<open>maxLoad\<close> of the last record. In \<open>cfgE\<close> the first record of \<open>t1\<close> has
  \<open>maxLoad = 1\<close> and the returned timetable has three cells of \<open>t1\<close>.
\<close>

theorem teacher_load_exceeds_first_record:
  "teacherE1 \<in> set (teachers cfgE) \<and> maxLoad teacherE1 = 1
   \<and> teacherCellCount (timetable (generateTimetable cfgE noOptimizer 0 0)) (teacher_id teacherE1) = 3
   \<and> \<not> int (teacherCellCount (timetable (generateTimetable cfgE noOptimizer 0 0)) (teacher_id teacherE1))
         \<le> maxLoad teacherE1"
proof -
  have r: "timetable (generateTimetable cfgE noOptimizer 0 0) = ttE"
    by (simp add: generateTimetable_def Let_def iterationsOf_def noOptimizer_def startState_def greedy_cfgE)
  have t: "teacher_id teacherE1 = ''t1''" "maxLoad teacherE1 = 1" by (simp_all add: teacherE1_def)
  have m: "teacherE1 \<in> set (teachers cfgE)" by (simp add: cfgE_def)
  show ?thesis unfolding r t using m count_ttE by simp
qed

text \<open>
  Claim C5, amended. For every configuration, every options and every teacher id, the
  number of cells of the returned timetable that carry the id is at most
  \<open>max 0 (loadCap cfg tid)\<close>, where \<open>loadCap cfg tid\<close> is the value the generator
  compares the load with: the \<open>maxLoad\<close> of the last teacher record with that id, and 0
  when there is none. No hypothesis on the configuration is needed.
\<close>

theorem teacher_load_bound:
  "int (teacherCellCount (timetable (generateTimetable cfg opts t0 t1)) tid) \<le> max 0 (loadCap cfg tid)"
  using loop_teacher_bound[of cfg "iterationsOf opts" opts tid]
  by (simp add: generated_timetable)

theorem teacher_load_bound_witness:
  "timetable (generateTimetable cfgD noOptimizer 0 0) = ttD
   \<and> teacherCellCount (timetable (generateTimetable cfgD noOptimizer 0 0)) ''t1'' = 2
   \<and> loadCap cfgD ''t1'' = 2
   \<and> int (teacherCellCount (timetable (generateTimetable cfgD noOptimizer 0 0)) ''t1'')
       \<le> max 0 (loadCap cfgD ''t1'')"
proof -
  have r: "timetable (generateTimetable cfgD noOptimizer 0 0) = ttD"
    by (simp add: generateTimetable_def Let_def iterationsOf_def noOptimizer_def startState_def greedy_cfgD)
  show ?thesis
    using teacher_load_bound[of cfgD noOptimizer 0 0 "''t1''"] r count_ttD loadCap_cfgD by simp
qed

text \<open>
  Where the teacher ids are distinct and the \<open>maxLoad\<close> of a teacher is not negative,
  the limit is that teacher's own \<open>maxLoad\<close>.
\<close>

lemma teacher_load_bound_distinct:
  assumes "distinct (map teacher_id (teachers cfg))" and "t \<in> set (teachers cfg)" and "0 \<le> maxLoad t"
  shows "int (teacherCellCount (timetable (generateTimetable cfg opts t0 t1)) (teacher_id t)) \<le> maxLoad t"
  using loop_teacher_bound[of cfg "iterationsOf opts" opts "teacher_id t"] assms
  by (simp add: generated_timetable loadCap_distinct)

section \<open>The adjacency penalty\<close>




section \<open>Demand and the cells of a subject\<close>

text \<open>
  Claim C3, as stated: in the returned timetable the cells of a class that carry a subject
  (assigned entries and unassigned markers) are as many as the weekly count \<open>N\<close> of the
  subject in the class. In \<open>cfgF\<close> the only class asks for \<open>N = 3\<close> lessons of the
  double-period subject \<open>m\<close> on one day of four periods, and the optimizer is switched
  off. Each of the first two requirements takes two cells; the third finds no two free
  cells, and \<^verbatim>\<open>tryAssignSlot\<close> returns without writing a marker. The class has 4 cells of
  \<open>m\<close>: neither \<open>N\<close> nor \<open>2 * N\<close>.
\<close>

theorem demand_not_conserved:
  "classes cfgF = [\<lparr>class_id = ''c1'', class_subjects = [(''m'', 3)]\<rparr>]
   \<and> subjectDouble cfgF ''m''
   \<and> subjectCellCount (timetable (generateTimetable cfgF noOptimizer 0 0)) ''c1'' ''m'' = 4
   \<and> subjectCellCount (timetable (generateTimetable cfgF noOptimizer 0 0)) ''c1'' ''m'' \<noteq> 3
   \<and> subjectCellCount (timetable (generateTimetable cfgF noOptimizer 0 0)) ''c1'' ''m'' \<noteq> 2 * 3"
proof -
  have r: "timetable (generateTimetable cfgF noOptimizer 0 0) = ttB"
    by (simp add: generateTimetable_def Let_def iterationsOf_def noOptimizer_def startState_def greedy_cfgF)
  have c: "classes cfgF = [\<lparr>class_id = ''c1'', class_subjects = [(''m'', 3)]\<rparr>]"
    by (simp add: cfgF_def)
  show ?thesis unfolding r using c demand_cfgF(2) count_ttB by simp
qed

text \<open>
  Claim C3, amended. For every configuration, options, class id \<open>c\<close> and subject id \<open>s\<close>,
  the cells of \<open>c\<close> that carry \<open>s\<close> in the returned timetable are at most
  \<open>weeklyCount cfg c s\<close> times the periods of one lesson (2 for a double-period subject,
  else 1): no demand is duplicated, by the greedy pass or by the optimizer. When the
  optimizer runs no iteration, \<open>s\<close> is not a double-period subject and the periods that
  the class asks for in all its subjects fit into its grid, they are exactly
  \<open>weeklyCount cfg c s\<close>: the greedy pass drops no such demand. What the optimizer does
  to the count beyond the upper bound is not part of this statement.
\<close>

theorem demand_cells_bound:
  "subjectCellCount (timetable (generateTimetable cfg opts t0 t1)) c s
     \<le> weeklyCount cfg c s * periodSpan (subjectDouble cfg s)
   \<and> (iterationsOf opts = 0 \<and> \<not> subjectDouble cfg s
        \<and> classDemand cfg c \<le> workingDays cfg * periodsPerDay cfg
      \<longrightarrow> subjectCellCount (timetable (generateTimetable cfg opts t0 t1)) c s = weeklyCount cfg c s)"
proof (intro conjI impI)
  show "subjectCellCount (timetable (generateTimetable cfg opts t0 t1)) c s
     \<le> weeklyCount cfg c s * periodSpan (subjectDouble cfg s)"
    using loop_subject_count[of cfg "iterationsOf opts" opts c s] greedy_demand_le[of cfg c s]
    by (simp add: generated_timetable demandCells_weeklyCount)
next
  assume a: "iterationsOf opts = 0 \<and> \<not> subjectDouble cfg s
        \<and> classDemand cfg c \<le> workingDays cfg * periodsPerDay cfg"
  then have "timetable (generateTimetable cfg opts t0 t1) = fst (greedyAssign cfg)"
    by (simp add: generated_timetable startState_def Let_def)
  then show "subjectCellCount (timetable (generateTimetable cfg opts t0 t1)) c s = weeklyCount cfg c s"
    using greedy_demand_eq[of cfg s c] a
    by (simp add: classDemandCells_config demandCells_weeklyCount periodSpan_def)
qed

theorem demand_cells_bound_witness:
  "iterationsOf noOptimizer = 0 \<and> \<not> subjectDouble cfgA ''m''
   \<and> classDemand cfgA ''c1'' \<le> workingDays cfgA * periodsPerDay cfgA
   \<and> weeklyCount cfgA ''c1'' ''m'' = 1
   \<and> subjectCellCount (timetable (generateTimetable cfgA noOptimizer 0 0)) ''c1'' ''m'' = 1"
  using demand_cells_bound[of cfgA noOptimizer 0 0 "''c1''" "''m''"]
  by (simp add: demand_cfgA iterations_noOptimizer size_cfgA)

text \<open>
  Where the class ids are distinct and the subject mapping of the class has each subject
  once, \<open>weeklyCount\<close> is the configured count \<open>N | 0\<close> of the subject in the class.
\<close>

lemma weekly_count_is_configured:
  assumes "distinct (map class_id (classes cfg))" and "cls \<in> set (classes cfg)"
      and "distinct (map fst (class_subjects cls))" and "(s, n) \<in> set (class_subjects cls)"
  shows "weeklyCount cfg (class_id cls) s = nat (toInt32 n)"
  using assms by (rule weeklyCount_distinct)

end
